theory Spec2Isabelle
  imports Main "HOL-Library.Word"
begin

unbundle bit_operations_syntax

section \<open>The block reader of \<^verbatim>\<open>parse_mc.py\<close>\<close>

text \<open>
  \<^verbatim>\<open>WorkingMinecraftReader\<close> resolves a world coordinate to a block name through two
  dictionaries (regions, chunks) filled on demand from the \<^verbatim>\<open>anvil\<close> library.
  Python integers are unbounded, so coordinates are \<open>int\<close>; \<^verbatim>\<open>x >> 4\<close> is
  \<open>drop_bit 4 x\<close> and \<^verbatim>\<open>x & 15\<close> is \<open>x AND 15\<close> on \<open>int\<close> (two's complement of
  unbounded width, as in Python).
\<close>

subsection \<open>Exceptions and the world outside the reader\<close>

text \<open>
  Every failure is an exception derived from \<^verbatim>\<open>Exception\<close>: the ones the library
  raises, and the \<^verbatim>\<open>ValueError\<close> that CPython raises when an integer with more
  decimal digits than \<^verbatim>\<open>sys.get_int_max_str_digits()\<close> is converted to a string.
\<close>

datatype error = FileNotFoundError string | DecodeError string | ValueError string

text \<open>\<^verbatim>\<open>str(e)\<close> for an exception, as \<^verbatim>\<open>{e}\<close> in an f-string renders it.\<close>

fun str_error :: "error \<Rightarrow> string" where
  "str_error (FileNotFoundError m) = m"
| "str_error (DecodeError m) = m"
| "str_error (ValueError m) = m"

text \<open>
  What the reader calls is a parameter: \<open>from_file\<close> is
  \<^verbatim>\<open>anvil.Region.from_file(path)\<close>, \<open>region_get_chunk\<close> is
  \<^verbatim>\<open>region.get_chunk(lx, lz)\<close>, and \<open>chunk_get_block\<close> is
  \<^verbatim>\<open>chunk.get_block(bx, y, bz).id\<close>. \<open>Inl\<close> is a raised exception. A handle is an
  object, never \<^verbatim>\<open>None\<close>. \<open>path_exists\<close> is \<^verbatim>\<open>os.path.exists\<close>.
  \<open>int_max_str_digits\<close> is the interpreter's limit on integer to string conversion
  (4300 by default since CPython 3.11; 0 switches the check off, as it is before 3.11).
  Standard output accepts every write.
\<close>

record ('r, 'c) env =
  path_exists :: "string \<Rightarrow> bool"
  from_file :: "string \<Rightarrow> error + 'r"
  region_get_chunk :: "'r \<Rightarrow> int \<Rightarrow> int \<Rightarrow> error + 'c"
  chunk_get_block :: "'c \<Rightarrow> int \<Rightarrow> int \<Rightarrow> int \<Rightarrow> error + string"
  int_max_str_digits :: nat

subsection \<open>The reader's state\<close>

text \<open>
  \<open>calls\<close> is not a field of the Python object: it records, in order, every call the
  reader makes into the library, each with the cache key it was made for and the
  arguments passed. It is what a counting stub of the library would observe.
\<close>

datatype call =
    RegionLoad "int \<times> int" string
  | ChunkDecode "int \<times> int" "int \<times> int"
  | BlockDecode "int \<times> int" "int \<times> int \<times> int"

record ('r, 'c) reader =
  world_directory :: string
  region_cache :: "int \<times> int \<rightharpoonup> 'r"
  chunk_cache :: "int \<times> int \<rightharpoonup> 'c"
  calls :: "call list"

subsection \<open>Strings of integers, paths and messages\<close>

text \<open>\<^verbatim>\<open>os.path.join(a, b)\<close> for two components, POSIX flavour.\<close>

definition path_join :: "string \<Rightarrow> string \<Rightarrow> string" where
  "path_join a b =
     (if b \<noteq> [] \<and> hd b = CHR ''/'' then b
      else if a = [] \<or> last a = CHR ''/'' then a @ b
      else a @ ''/'' @ b)"

definition digit_char :: "nat \<Rightarrow> char" where
  "digit_char d = ''0123456789'' ! d"

fun str_nat :: "nat \<Rightarrow> string" where
  "str_nat n = (if n < 10 then [digit_char n] else str_nat (n div 10) @ [digit_char (n mod 10)])"

declare str_nat.simps [simp del]

text \<open>The decimal rendering of an integer.\<close>

definition str_int :: "int \<Rightarrow> string" where
  "str_int i = (if i < 0 then ''-'' @ str_nat (nat (- i)) else str_nat (nat i))"

text \<open>The number of decimal digits of an integer, sign not counted.\<close>

definition num_digits :: "int \<Rightarrow> nat" where
  "num_digits i = length (str_nat (nat \<bar>i\<bar>))"

definition int_str_error :: "('r, 'c) env \<Rightarrow> error" where
  "int_str_error e =
     ValueError (''Exceeds the limit ('' @ str_nat (int_max_str_digits e) @
                 '' digits) for integer string conversion; '' @
                 ''use sys.set_int_max_str_digits() to increase the limit'')"

text \<open>
  \<^verbatim>\<open>str(i)\<close>, which is what \<^verbatim>\<open>{i}\<close> in an f-string does to an integer: it raises
  when the limit is on and \<open>i\<close> has more digits than the limit.
\<close>

definition format_int :: "('r, 'c) env \<Rightarrow> int \<Rightarrow> error + string" where
  "format_int e i =
     (if 0 < int_max_str_digits e \<and> int_max_str_digits e < num_digits i
      then Inl (int_str_error e) else Inr (str_int i))"

text \<open>The integers whose conversion to a string does not raise.\<close>

definition printable :: "('r, 'c) env \<Rightarrow> int \<Rightarrow> bool" where
  "printable e i \<longleftrightarrow> int_max_str_digits e = 0 \<or> num_digits i \<le> int_max_str_digits e"

text \<open>\<^verbatim>\<open>os.path.join(self.world_directory, f"r.{region_x}.{region_z}.mca")\<close>\<close>

definition region_file :: "('r, 'c) env \<Rightarrow> string \<Rightarrow> int \<Rightarrow> int \<Rightarrow> error + string" where
  "region_file e wd region_x region_z =
     (case format_int e region_x of
        Inl ex \<Rightarrow> Inl ex
      | Inr sx \<Rightarrow>
          (case format_int e region_z of
             Inl ex \<Rightarrow> Inl ex
           | Inr sz \<Rightarrow> Inr (path_join wd (''r.'' @ sx @ ''.'' @ sz @ ''.mca''))))"

text \<open>\<^verbatim>\<open>f"Error loading chunk at ({chunk_x}, {chunk_z}): {e}"\<close>\<close>

definition chunk_error_message :: "('r, 'c) env \<Rightarrow> int \<Rightarrow> int \<Rightarrow> error \<Rightarrow> error + string" where
  "chunk_error_message e chunk_x chunk_z err =
     (case format_int e chunk_x of
        Inl ex \<Rightarrow> Inl ex
      | Inr sx \<Rightarrow>
          (case format_int e chunk_z of
             Inl ex \<Rightarrow> Inl ex
           | Inr sz \<Rightarrow>
               Inr (''Error loading chunk at ('' @ sx @ '', '' @ sz @ ''): '' @ str_error err)))"

text \<open>\<^verbatim>\<open>f"Error reading block at ({x}, {y}, {z}): {e}"\<close>\<close>

definition block_error_message ::
  "('r, 'c) env \<Rightarrow> int \<Rightarrow> int \<Rightarrow> int \<Rightarrow> error \<Rightarrow> error + string" where
  "block_error_message e x y z err =
     (case format_int e x of
        Inl ex \<Rightarrow> Inl ex
      | Inr sx \<Rightarrow>
          (case format_int e y of
             Inl ex \<Rightarrow> Inl ex
           | Inr sy \<Rightarrow>
               (case format_int e z of
                  Inl ex \<Rightarrow> Inl ex
                | Inr sz \<Rightarrow>
                    Inr (''Error reading block at ('' @ sx @ '', '' @ sy @ '', '' @ sz @
                         ''): '' @ str_error err))))"

subsection \<open>Construction\<close>

definition init_reader :: "('r, 'c) env \<Rightarrow> string \<Rightarrow> error + ('r, 'c) reader" where
  "init_reader e world_path =
     (let wd = path_join world_path ''region'' in
      if \<not> path_exists e wd
      then Inl (FileNotFoundError (''Region folder not found at '' @ wd))
      else Inr \<lparr>world_directory = wd, region_cache = Map.empty,
                chunk_cache = Map.empty, calls = []\<rparr>)"

subsection \<open>Coordinate arithmetic\<close>

definition chunk_coord :: "int \<Rightarrow> int" where
  "chunk_coord x = drop_bit 4 x"

definition block_offset :: "int \<Rightarrow> int" where
  "block_offset x = x AND 15"

subsection \<open>Resolvers\<close>

text \<open>
  The result of a method is \<open>Inl\<close> when the call raises to its caller and \<open>Inr\<close> when it
  returns; the reader is returned as the call left it in both cases.

  \<^verbatim>\<open>_get_region\<close>: the path is built before the \<^verbatim>\<open>try\<close>, so a \<^verbatim>\<open>ValueError\<close>
  from the f-string leaves the method. The handler prints the path and the exception,
  both strings already.
\<close>

definition get_region ::
  "('r, 'c) env \<Rightarrow> ('r, 'c) reader \<Rightarrow> int \<Rightarrow> int \<Rightarrow> (error + 'r option) \<times> ('r, 'c) reader" where
  "get_region e s region_x region_z =
     (case region_cache s (region_x, region_z) of
        Some region \<Rightarrow> (Inr (Some region), s)
      | None \<Rightarrow>
          (case region_file e (world_directory s) region_x region_z of
             Inl ex \<Rightarrow> (Inl ex, s)
           | Inr path \<Rightarrow>
               (let s1 = s\<lparr>calls := calls s @ [RegionLoad (region_x, region_z) path]\<rparr>
                in case from_file e path of
                     Inr region \<Rightarrow>
                       (Inr (Some region),
                        s1\<lparr>region_cache := (region_cache s1)((region_x, region_z) \<mapsto> region)\<rparr>)
                   | Inl ex \<Rightarrow> (Inr None, s1))))"

text \<open>
  \<^verbatim>\<open>_get_chunk\<close>: the call of \<^verbatim>\<open>_get_region\<close> stands before the \<^verbatim>\<open>try\<close>, so what
  it raises leaves the method. The handler's \<^verbatim>\<open>print\<close> formats the two chunk
  coordinates and raises if that fails.
\<close>

definition get_chunk ::
  "('r, 'c) env \<Rightarrow> ('r, 'c) reader \<Rightarrow> int \<Rightarrow> int \<Rightarrow> (error + 'c option) \<times> ('r, 'c) reader" where
  "get_chunk e s chunk_x chunk_z =
     (case chunk_cache s (chunk_x, chunk_z) of
        Some chunk \<Rightarrow> (Inr (Some chunk), s)
      | None \<Rightarrow>
          (let region_x = chunk_x div 32;
               region_z = chunk_z div 32
           in case get_region e s region_x region_z of
                (Inl ex, s1) \<Rightarrow> (Inl ex, s1)
              | (Inr None, s1) \<Rightarrow> (Inr None, s1)
              | (Inr (Some region), s1) \<Rightarrow>
                  (let s2 = s1\<lparr>calls := calls s1 @
                                 [ChunkDecode (chunk_x, chunk_z) (chunk_x mod 32, chunk_z mod 32)]\<rparr>
                   in case region_get_chunk e region (chunk_x mod 32) (chunk_z mod 32) of
                        Inr chunk \<Rightarrow>
                          (Inr (Some chunk),
                           s2\<lparr>chunk_cache := (chunk_cache s2)((chunk_x, chunk_z) \<mapsto> chunk)\<rparr>)
                      | Inl ex \<Rightarrow>
                          (case chunk_error_message e chunk_x chunk_z ex of
                             Inl ex' \<Rightarrow> (Inl ex', s2)
                           | Inr message \<Rightarrow> (Inr None, s2)))))"

subsection \<open>Block lookup\<close>

text \<open>
  The body of the \<^verbatim>\<open>try\<close> in \<^verbatim>\<open>get_block\<close>: it either returns a name or raises.
\<close>

definition get_block_try ::
  "('r, 'c) env \<Rightarrow> ('r, 'c) reader \<Rightarrow> int \<Rightarrow> int \<Rightarrow> int \<Rightarrow> (error + string) \<times> ('r, 'c) reader" where
  "get_block_try e s x y z =
     (let chunk_x = chunk_coord x;
          chunk_z = chunk_coord z;
          block_x = block_offset x;
          block_z = block_offset z
      in case get_chunk e s chunk_x chunk_z of
           (Inl ex, s1) \<Rightarrow> (Inl ex, s1)
         | (Inr None, s1) \<Rightarrow> (Inr ''minecraft:air'', s1)
         | (Inr (Some chunk), s1) \<Rightarrow>
             (chunk_get_block e chunk block_x y block_z,
              s1\<lparr>calls := calls s1 @ [BlockDecode (chunk_x, chunk_z) (block_x, y, block_z)]\<rparr>))"

text \<open>
  The whole method. The handler first prints a message that formats \<open>x\<close>, \<open>y\<close> and \<open>z\<close>;
  if that raises, the exception leaves \<^verbatim>\<open>get_block\<close>, otherwise
  \<^verbatim>\<open>"minecraft:air"\<close> is returned.
\<close>

definition get_block ::
  "('r, 'c) env \<Rightarrow> ('r, 'c) reader \<Rightarrow> int \<Rightarrow> int \<Rightarrow> int \<Rightarrow> (error + string) \<times> ('r, 'c) reader" where
  "get_block e s x y z =
     (case get_block_try e s x y z of
        (Inr block, s1) \<Rightarrow> (Inr block, s1)
      | (Inl ex, s1) \<Rightarrow>
          (case block_error_message e x y z ex of
             Inl ex' \<Rightarrow> (Inl ex', s1)
           | Inr message \<Rightarrow> (Inr ''minecraft:air'', s1)))"

subsection \<open>Batch lookup and area scan\<close>

type_synonym blocks = "int \<times> int \<times> int \<rightharpoonup> string"

text \<open>
  A \<^verbatim>\<open>for\<close> loop whose body may raise: the loop stops at the first exception and
  passes it on.
\<close>

fun for_each ::
  "('a \<Rightarrow> 'b \<times> 's \<Rightarrow> (error + 'b) \<times> 's) \<Rightarrow> 'a list \<Rightarrow> 'b \<times> 's \<Rightarrow> (error + 'b) \<times> 's" where
  "for_each body [] acc = (Inr (fst acc), snd acc)"
| "for_each body (v # vs) acc =
     (case body v acc of
        (Inl ex, s1) \<Rightarrow> (Inl ex, s1)
      | (Inr acc1, s1) \<Rightarrow> for_each body vs (acc1, s1))"

definition store_block ::
  "('r, 'c) env \<Rightarrow> int \<times> int \<times> int \<Rightarrow> blocks \<times> ('r, 'c) reader
     \<Rightarrow> (error + blocks) \<times> ('r, 'c) reader" where
  "store_block e c acc =
     (case c of (x, y, z) \<Rightarrow>
        (case acc of (results, s) \<Rightarrow>
           (case get_block e s x y z of
              (Inl ex, s1) \<Rightarrow> (Inl ex, s1)
            | (Inr block, s1) \<Rightarrow> (Inr (results((x, y, z) \<mapsto> block)), s1))))"

definition get_multiple_blocks ::
  "('r, 'c) env \<Rightarrow> ('r, 'c) reader \<Rightarrow> (int \<times> int \<times> int) list
     \<Rightarrow> (error + blocks) \<times> ('r, 'c) reader" where
  "get_multiple_blocks e s coordinates = for_each (store_block e) coordinates (Map.empty, s)"

definition air_blocks :: "string set" where
  "air_blocks = {''minecraft:air'', ''minecraft:cave_air'', ''minecraft:void_air'',
                 ''air'', ''cave_air'', ''void_air''}"

text \<open>\<^verbatim>\<open>range(a, b)\<close> over integers.\<close>

definition range_py :: "int \<Rightarrow> int \<Rightarrow> int list" where
  "range_py a b = [a..b - 1]"

definition scan_voxel ::
  "('r, 'c) env \<Rightarrow> int \<Rightarrow> int \<Rightarrow> int \<Rightarrow> blocks \<times> ('r, 'c) reader
     \<Rightarrow> (error + blocks) \<times> ('r, 'c) reader" where
  "scan_voxel e x y z acc =
     (case acc of (blocks, s) \<Rightarrow>
        (case get_block e s x y z of
           (Inl ex, s1) \<Rightarrow> (Inl ex, s1)
         | (Inr block, s1) \<Rightarrow>
             if block \<notin> air_blocks then (Inr (blocks((x, y, z) \<mapsto> block)), s1)
             else (Inr blocks, s1)))"

definition scan_area ::
  "('r, 'c) env \<Rightarrow> ('r, 'c) reader \<Rightarrow> int \<Rightarrow> int \<Rightarrow> int \<Rightarrow> int \<Rightarrow> int \<Rightarrow> int
     \<Rightarrow> (error + blocks) \<times> ('r, 'c) reader" where
  "scan_area e s x1 y1 z1 x2 y2 z2 =
     for_each (\<lambda>x. for_each (\<lambda>y. for_each (\<lambda>z. scan_voxel e x y z)
                                          (range_py (min z1 z2) (max z1 z2 + 1)))
                             (range_py (min y1 y2) (max y1 y2 + 1)))
              (range_py (min x1 x2) (max x1 x2 + 1))
              (Map.empty, s)"

subsection \<open>Sessions\<close>

text \<open>
  A session is a list of calls on one reader. The world outside may answer differently
  from one call to the next (a region file can appear while the session runs), so every
  call comes with the world it runs against. A call that raises leaves the reader as it
  was at the raise, and the session goes on from there.
\<close>

datatype op =
    GetBlock int int int
  | GetChunk int int
  | GetRegion int int
  | GetMultipleBlocks "(int \<times> int \<times> int) list"
  | ScanArea int int int int int int

fun exec :: "('r, 'c) env \<Rightarrow> op \<Rightarrow> ('r, 'c) reader \<Rightarrow> ('r, 'c) reader" where
  "exec e (GetBlock x y z) s = snd (get_block e s x y z)"
| "exec e (GetChunk chunk_x chunk_z) s = snd (get_chunk e s chunk_x chunk_z)"
| "exec e (GetRegion region_x region_z) s = snd (get_region e s region_x region_z)"
| "exec e (GetMultipleBlocks coordinates) s = snd (get_multiple_blocks e s coordinates)"
| "exec e (ScanArea x1 y1 z1 x2 y2 z2) s = snd (scan_area e s x1 y1 z1 x2 y2 z2)"

definition run :: "(('r, 'c) env \<times> op) list \<Rightarrow> ('r, 'c) reader \<Rightarrow> ('r, 'c) reader" where
  "run ops s = fold (\<lambda>p. exec (fst p) (snd p)) ops s"

text \<open>The library calls made between an earlier state and a later one.\<close>

definition new_calls :: "('r, 'c) reader \<Rightarrow> ('r, 'c) reader \<Rightarrow> call list" where
  "new_calls s s' = drop (length (calls s)) (calls s')"

fun is_chunk_decode :: "call \<Rightarrow> bool" where
  "is_chunk_decode (ChunkDecode k slot) = True"
| "is_chunk_decode c = False"

definition chunk_decodes :: "call list \<Rightarrow> nat" where
  "chunk_decodes cs = length (filter is_chunk_decode cs)"

text \<open>The normalised inclusive box of two corners.\<close>

definition in_box ::
  "int \<Rightarrow> int \<Rightarrow> int \<Rightarrow> int \<Rightarrow> int \<Rightarrow> int \<Rightarrow> int \<times> int \<times> int \<Rightarrow> bool" where
  "in_box x1 y1 z1 x2 y2 z2 c =
     (case c of (x, y, z) \<Rightarrow>
        min x1 x2 \<le> x \<and> x \<le> max x1 x2 \<and>
        min y1 y2 \<le> y \<and> y \<le> max y1 y2 \<and>
        min z1 z2 \<le> z \<and> z \<le> max z1 z2)"

text \<open>
  \<open>agrees e s s'\<close>: the caches of \<open>s'\<close> hold everything the caches of \<open>s\<close> hold, and
  whatever else they hold is what resolving from \<open>s\<close> against \<open>e\<close> yields.
\<close>

definition agrees :: "('r, 'c) env \<Rightarrow> ('r, 'c) reader \<Rightarrow> ('r, 'c) reader \<Rightarrow> bool" where
  "agrees e s s' \<longleftrightarrow>
     world_directory s' = world_directory s
     \<and> region_cache s \<subseteq>\<^sub>m region_cache s'
     \<and> chunk_cache s \<subseteq>\<^sub>m chunk_cache s'
     \<and> (\<forall>rx rz r. region_cache s' (rx, rz) = Some r
           \<longrightarrow> fst (get_region e s rx rz) = Inr (Some r))
     \<and> (\<forall>cx cz c. chunk_cache s' (cx, cz) = Some c
           \<longrightarrow> fst (get_chunk e s cx cz) = Inr (Some c))"

text \<open>
  \<open>grows s s'\<close>: from \<open>s\<close> to \<open>s'\<close> no cache entry was dropped or changed, and the library
  was asked only for keys that \<open>s\<close> had not cached.
\<close>

definition grows :: "('r, 'c) reader \<Rightarrow> ('r, 'c) reader \<Rightarrow> bool" where
  "grows s s' \<longleftrightarrow>
     world_directory s' = world_directory s
     \<and> region_cache s \<subseteq>\<^sub>m region_cache s'
     \<and> chunk_cache s \<subseteq>\<^sub>m chunk_cache s'
     \<and> (\<exists>new. calls s' = calls s @ new
            \<and> (\<forall>k p. RegionLoad k p \<in> set new \<longrightarrow> region_cache s k = None)
            \<and> (\<forall>k slot. ChunkDecode k slot \<in> set new \<longrightarrow> chunk_cache s k = None))"

text \<open>Every cached chunk lies in a cached region.\<close>

definition chunks_have_regions :: "('r, 'c) reader \<Rightarrow> bool" where
  "chunks_have_regions s \<longleftrightarrow>
     (\<forall>cx cz. chunk_cache s (cx, cz) \<noteq> None \<longrightarrow> region_cache s (cx div 32, cz div 32) \<noteq> None)"

subsection \<open>A stub world\<close>

text \<open>
  Two stand-ins for the world outside, with natural numbers as handles and the default
  limit of 4300 digits. \<open>bare_env\<close> has an empty region folder. \<open>stub_env\<close> has the one
  region file \<^verbatim>\<open>r.0.0.mca\<close>, whose only decodable chunk is slot \<open>(0, 0)\<close>; that chunk
  holds stone at \<open>(5, 64, 5)\<close>, air elsewhere, and fails to decode below \<open>y = 0\<close>.
\<close>

definition bare_env :: "(nat, nat) env" where
  "bare_env = \<lparr>path_exists = (\<lambda>p. p = ''w/region''),
               from_file = (\<lambda>p. Inl (FileNotFoundError p)),
               region_get_chunk = (\<lambda>r lx lz. Inl (DecodeError ''chunk'')),
               chunk_get_block = (\<lambda>c bx y bz. Inl (DecodeError ''block'')),
               int_max_str_digits = 4300\<rparr>"

definition stub_env :: "(nat, nat) env" where
  "stub_env = \<lparr>path_exists = (\<lambda>p. p = ''w/region''),
               from_file = (\<lambda>p. if p = ''w/region/r.0.0.mca'' then Inr 1
                                 else Inl (FileNotFoundError p)),
               region_get_chunk = (\<lambda>r lx lz. if lx = 0 \<and> lz = 0 then Inr 7
                                              else Inl (DecodeError ''chunk'')),
               chunk_get_block = (\<lambda>c bx y bz.
                  if y < 0 then Inl (DecodeError ''block'')
                  else if (bx, y, bz) = (5, 64, 5) then Inr ''minecraft:stone''
                  else Inr ''minecraft:air''),
               int_max_str_digits = 4300\<rparr>"

definition fresh_reader :: "(nat, nat) reader" where
  "fresh_reader = \<lparr>world_directory = ''w/region'', region_cache = Map.empty,
                    chunk_cache = Map.empty, calls = []\<rparr>"

section \<open>Resolver facts\<close>

lemma get_region_hit:
  "region_cache s (rx, rz) = Some r \<Longrightarrow> get_region e s rx rz = (Inr (Some r), s)"
  by (simp add: get_region_def)

lemma get_region_miss:
  "region_cache s (rx, rz) = None \<Longrightarrow>
   get_region e s rx rz =
     (case region_file e (world_directory s) rx rz of
        Inl ex \<Rightarrow> (Inl ex, s)
      | Inr path \<Rightarrow>
          (case from_file e path of
             Inr r \<Rightarrow> (Inr (Some r), s\<lparr>calls := calls s @ [RegionLoad (rx, rz) path],
                                      region_cache := (region_cache s)((rx, rz) \<mapsto> r)\<rparr>)
           | Inl ex \<Rightarrow> (Inr None, s\<lparr>calls := calls s @ [RegionLoad (rx, rz) path]\<rparr>)))"
  by (simp add: get_region_def Let_def split: sum.splits)

lemma get_region_fst:
  "fst (get_region e s rx rz) =
     (case region_cache s (rx, rz) of
        Some r \<Rightarrow> Inr (Some r)
      | None \<Rightarrow>
          (case region_file e (world_directory s) rx rz of
             Inl ex \<Rightarrow> Inl ex
           | Inr path \<Rightarrow> (case from_file e path of Inr r \<Rightarrow> Inr (Some r) | Inl ex \<Rightarrow> Inr None)))"
  by (simp add: get_region_def Let_def split: option.splits sum.splits)

lemma get_region_wd: "world_directory (snd (get_region e s rx rz)) = world_directory s"
  by (simp add: get_region_def Let_def split: option.splits sum.splits)

lemma get_region_chunk_cache: "chunk_cache (snd (get_region e s rx rz)) = chunk_cache s"
  by (simp add: get_region_def Let_def split: option.splits sum.splits)

lemma get_region_result_cached:
  "get_region e s rx rz = (Inr (Some r), s') \<Longrightarrow> region_cache s' (rx, rz) = Some r"
  by (auto simp add: get_region_def Let_def split: option.splits sum.splits)

lemma get_chunk_hit:
  "chunk_cache s (cx, cz) = Some c \<Longrightarrow> get_chunk e s cx cz = (Inr (Some c), s)"
  by (simp add: get_chunk_def)

lemma get_chunk_fst:
  "fst (get_chunk e s cx cz) =
     (case chunk_cache s (cx, cz) of
        Some c \<Rightarrow> Inr (Some c)
      | None \<Rightarrow>
          (case fst (get_region e s (cx div 32) (cz div 32)) of
             Inl ex \<Rightarrow> Inl ex
           | Inr None \<Rightarrow> Inr None
           | Inr (Some r) \<Rightarrow>
               (case region_get_chunk e r (cx mod 32) (cz mod 32) of
                  Inr c \<Rightarrow> Inr (Some c)
                | Inl ex \<Rightarrow> (case chunk_error_message e cx cz ex of
                              Inl ex' \<Rightarrow> Inl ex' | Inr message \<Rightarrow> Inr None))))"
  by (simp add: get_chunk_def Let_def split: option.splits sum.splits prod.splits)

lemma get_chunk_snd:
  "chunk_cache s (cx, cz) = None \<Longrightarrow>
   snd (get_chunk e s cx cz) =
     (case get_region e s (cx div 32) (cz div 32) of
        (Inr (Some r), s1) \<Rightarrow>
          (case region_get_chunk e r (cx mod 32) (cz mod 32) of
             Inr c \<Rightarrow> s1\<lparr>calls := calls s1 @ [ChunkDecode (cx, cz) (cx mod 32, cz mod 32)],
                          chunk_cache := (chunk_cache s1)((cx, cz) \<mapsto> c)\<rparr>
           | Inl ex \<Rightarrow> s1\<lparr>calls := calls s1 @ [ChunkDecode (cx, cz) (cx mod 32, cz mod 32)]\<rparr>)
      | (other, s1) \<Rightarrow> s1)"
  by (simp add: get_chunk_def Let_def split: option.splits sum.splits prod.splits)

lemma get_chunk_wd: "world_directory (snd (get_chunk e s cx cz)) = world_directory s"
proof (cases "chunk_cache s (cx, cz)")
  case (Some c)
  then show ?thesis by (simp add: get_chunk_hit)
next
  case None
  show ?thesis
    using get_region_wd [of e s "cx div 32" "cz div 32"]
    by (auto simp add: get_chunk_snd [OF None] split: option.splits sum.splits prod.splits)
qed

lemma get_block_fst:
  "fst (get_block e s x y z) =
     (case fst (get_chunk e s (chunk_coord x) (chunk_coord z)) of
        Inl ex \<Rightarrow> (case block_error_message e x y z ex of
                     Inl ex' \<Rightarrow> Inl ex' | Inr message \<Rightarrow> Inr ''minecraft:air'')
      | Inr None \<Rightarrow> Inr ''minecraft:air''
      | Inr (Some c) \<Rightarrow>
          (case chunk_get_block e c (block_offset x) y (block_offset z) of
             Inr b \<Rightarrow> Inr b
           | Inl ex \<Rightarrow> (case block_error_message e x y z ex of
                         Inl ex' \<Rightarrow> Inl ex' | Inr message \<Rightarrow> Inr ''minecraft:air'')))"
  by (auto simp add: get_block_def get_block_try_def Let_def
      split: option.splits sum.splits prod.splits)

lemma get_block_snd:
  "snd (get_block e s x y z) =
     (case get_chunk e s (chunk_coord x) (chunk_coord z) of
        (Inr (Some c), s1) \<Rightarrow> s1\<lparr>calls := calls s1 @
           [BlockDecode (chunk_coord x, chunk_coord z) (block_offset x, y, block_offset z)]\<rparr>
      | (other, s1) \<Rightarrow> s1)"
  by (auto simp add: get_block_def get_block_try_def Let_def
      split: option.splits sum.splits prod.splits)

subsection \<open>Integers that can be printed\<close>

lemma format_int_ok:
  "int_max_str_digits e = 0 \<or> num_digits i \<le> int_max_str_digits e
   \<Longrightarrow> format_int e i = Inr (str_int i)"
  by (auto simp add: format_int_def)

lemma format_int_raises:
  "0 < int_max_str_digits e \<Longrightarrow> int_max_str_digits e < num_digits i
   \<Longrightarrow> format_int e i = Inl (int_str_error e)"
  by (simp add: format_int_def)

lemma format_int_cases:
  "format_int e i = Inl ex \<Longrightarrow> ex = int_str_error e"
  by (auto simp add: format_int_def split: if_splits)

lemma str_nat_length_pos: "0 < length (str_nat n)"
  by (induction n rule: str_nat.induct) (subst str_nat.simps, simp)

lemma str_nat_length_mono: "m \<le> n \<Longrightarrow> length (str_nat m) \<le> length (str_nat n)"
proof (induction n arbitrary: m rule: str_nat.induct)
  case (1 n)
  show ?case
  proof (cases "n < 10")
    case True
    then have "m < 10" using "1.prems" by simp
    then show ?thesis using True by (subst (1 2) str_nat.simps) simp
  next
    case False
    have ih: "length (str_nat (m div 10)) \<le> length (str_nat (n div 10))"
      using "1.IH" [OF False, of "m div 10"] "1.prems" by (simp add: div_le_mono)
    show ?thesis
    proof (cases "m < 10")
      case True
      have "length (str_nat m) = 1" using True by (subst str_nat.simps) simp
      moreover have "length (str_nat n) = length (str_nat (n div 10)) + 1"
        using False by (subst str_nat.simps) simp
      ultimately show ?thesis by simp
    next
      case m: False
      have "length (str_nat m) = length (str_nat (m div 10)) + 1"
        using m by (subst str_nat.simps) simp
      moreover have "length (str_nat n) = length (str_nat (n div 10)) + 1"
        using False by (subst str_nat.simps) simp
      ultimately show ?thesis using ih by simp
    qed
  qed
qed

lemma str_nat_length_power: "length (str_nat (10 ^ k)) = k + 1"
proof (induction k)
  case 0
  show ?case by (subst str_nat.simps) simp
next
  case (Suc k)
  have "\<not> (10::nat) ^ Suc k < 10" by (simp add: not_less)
  then have "length (str_nat (10 ^ Suc k)) = length (str_nat (10 ^ Suc k div 10)) + 1"
    by (subst str_nat.simps) simp
  then show ?case using Suc by simp
qed

lemma num_digits_lower: "10 ^ k \<le> \<bar>i\<bar> \<Longrightarrow> k < num_digits i"
proof -
  assume a: "10 ^ k \<le> \<bar>i\<bar>"
  have "(10::nat) ^ k \<le> nat \<bar>i\<bar>"
  proof -
    have "int (10 ^ k) \<le> \<bar>i\<bar>" using a by simp
    then show ?thesis by linarith
  qed
  then have "length (str_nat (10 ^ k)) \<le> length (str_nat (nat \<bar>i\<bar>))"
    by (rule str_nat_length_mono)
  then show ?thesis by (simp add: num_digits_def str_nat_length_power)
qed

subsection \<open>grows\<close>

lemma grows_refl: "grows s s"
  by (simp add: grows_def)

lemma map_le_None: "m \<subseteq>\<^sub>m m' \<Longrightarrow> m' k = None \<Longrightarrow> m k = None"
  by (metis domIff map_le_def)

lemma map_le_Some: "m \<subseteq>\<^sub>m m' \<Longrightarrow> m k = Some v \<Longrightarrow> m' k = Some v"
  by (metis domI map_le_def)

lemma grows_trans:
  assumes "grows s s'" and "grows s' s''"
  shows "grows s s''"
proof -
  from assms(1) obtain n1 where
    a: "world_directory s' = world_directory s" "region_cache s \<subseteq>\<^sub>m region_cache s'"
       "chunk_cache s \<subseteq>\<^sub>m chunk_cache s'" "calls s' = calls s @ n1"
       "\<forall>k p. RegionLoad k p \<in> set n1 \<longrightarrow> region_cache s k = None"
       "\<forall>k slot. ChunkDecode k slot \<in> set n1 \<longrightarrow> chunk_cache s k = None"
    unfolding grows_def by blast
  from assms(2) obtain n2 where
    b: "world_directory s'' = world_directory s'" "region_cache s' \<subseteq>\<^sub>m region_cache s''"
       "chunk_cache s' \<subseteq>\<^sub>m chunk_cache s''" "calls s'' = calls s' @ n2"
       "\<forall>k p. RegionLoad k p \<in> set n2 \<longrightarrow> region_cache s' k = None"
       "\<forall>k slot. ChunkDecode k slot \<in> set n2 \<longrightarrow> chunk_cache s' k = None"
    unfolding grows_def by blast
  have c: "calls s'' = calls s @ (n1 @ n2)" using a(4) b(4) by simp
  have r: "\<forall>k p. RegionLoad k p \<in> set (n1 @ n2) \<longrightarrow> region_cache s k = None"
    using a(5) b(5) map_le_None [OF a(2)] by (metis Un_iff set_append)
  have d: "\<forall>k slot. ChunkDecode k slot \<in> set (n1 @ n2) \<longrightarrow> chunk_cache s k = None"
    using a(6) b(6) map_le_None [OF a(3)] by (metis Un_iff set_append)
  have w: "world_directory s'' = world_directory s" using a(1) b(1) by simp
  have m1: "region_cache s \<subseteq>\<^sub>m region_cache s''" using a(2) b(2) by (rule map_le_trans)
  have m2: "chunk_cache s \<subseteq>\<^sub>m chunk_cache s''" using a(3) b(3) by (rule map_le_trans)
  show ?thesis unfolding grows_def using w m1 m2 c r d by blast
qed

lemma get_region_grows: "grows s (snd (get_region e s rx rz))"
  by (auto simp add: grows_def get_region_def Let_def map_le_def split: option.splits sum.splits)

lemma get_chunk_grows: "grows s (snd (get_chunk e s cx cz))"
proof (cases "chunk_cache s (cx, cz)")
  case (Some c)
  then show ?thesis by (simp add: get_chunk_hit grows_refl)
next
  case None
  obtain ro s1 where g: "get_region e s (cx div 32) (cz div 32) = (ro, s1)"
    by (cases "get_region e s (cx div 32) (cz div 32)")
  have g1: "grows s s1" using get_region_grows [of s e "cx div 32" "cz div 32"] g by simp
  have cc: "chunk_cache s1 (cx, cz) = None"
    using get_region_chunk_cache [of e s "cx div 32" "cz div 32"] g None by simp
  have "grows s1 (snd (get_chunk e s cx cz))"
    using g cc
    by (auto simp add: get_chunk_snd [OF None] grows_def map_le_def
        split: option.splits sum.splits)
  with g1 show ?thesis by (rule grows_trans)
qed

lemma get_block_grows: "grows s (snd (get_block e s x y z))"
proof -
  have "grows (snd (get_chunk e s (chunk_coord x) (chunk_coord z))) (snd (get_block e s x y z))"
    by (auto simp add: get_block_snd grows_def split: prod.splits option.splits sum.splits)
  with get_chunk_grows show ?thesis by (rule grows_trans)
qed

subsection \<open>chunks_have_regions\<close>

lemma get_region_inv:
  "chunks_have_regions s \<Longrightarrow> chunks_have_regions (snd (get_region e s rx rz))"
  by (auto simp add: chunks_have_regions_def get_region_def Let_def split: option.splits sum.splits)

lemma get_chunk_inv:
  assumes "chunks_have_regions s"
  shows "chunks_have_regions (snd (get_chunk e s cx cz))"
proof (cases "chunk_cache s (cx, cz)")
  case (Some c)
  then show ?thesis using assms by (simp add: get_chunk_hit)
next
  case None
  obtain ro s1 where g: "get_region e s (cx div 32) (cz div 32) = (ro, s1)"
    by (cases "get_region e s (cx div 32) (cz div 32)")
  have i1: "chunks_have_regions s1"
    using get_region_inv [OF assms, of e "cx div 32" "cz div 32"] g by simp
  show ?thesis
  proof (cases ro)
    case (Inl ex)
    with g i1 show ?thesis by (simp add: get_chunk_snd [OF None])
  next
    case (Inr found)
    show ?thesis
    proof (cases found)
      case None
      with g i1 Inr show ?thesis
        by (simp add: get_chunk_snd [OF \<open>chunk_cache s (cx, cz) = None\<close>])
    next
      case (Some r)
      then have rc: "region_cache s1 (cx div 32, cz div 32) = Some r"
        using g Inr get_region_result_cached [of e s "cx div 32" "cz div 32" r s1] by simp
      with g i1 Some Inr show ?thesis
        by (auto simp add: get_chunk_snd [OF \<open>chunk_cache s (cx, cz) = None\<close>]
            chunks_have_regions_def split: sum.splits)
    qed
  qed
qed

lemma get_block_inv:
  assumes "chunks_have_regions s"
  shows "chunks_have_regions (snd (get_block e s x y z))"
  using get_chunk_inv [OF assms, of e "chunk_coord x" "chunk_coord z"]
  by (auto simp add: get_block_snd chunks_have_regions_def
      split: prod.splits option.splits sum.splits)

subsection \<open>agrees\<close>

lemma agrees_refl: "agrees e s s"
  by (simp add: agrees_def get_region_fst get_chunk_fst)

lemma agrees_get_region:
  assumes "agrees e s s'"
  shows "fst (get_region e s' rx rz) = fst (get_region e s rx rz)"
proof (cases "region_cache s' (rx, rz)")
  case None
  moreover have "region_cache s (rx, rz) = None"
    using assms None map_le_None unfolding agrees_def by metis
  moreover have "world_directory s' = world_directory s"
    using assms by (simp add: agrees_def)
  ultimately show ?thesis by (simp add: get_region_fst)
next
  case (Some r)
  then have "fst (get_region e s rx rz) = Inr (Some r)"
    using assms unfolding agrees_def by blast
  with Some show ?thesis by (simp add: get_region_hit)
qed

lemma agrees_get_chunk:
  assumes "agrees e s s'"
  shows "fst (get_chunk e s' cx cz) = fst (get_chunk e s cx cz)"
proof (cases "chunk_cache s' (cx, cz)")
  case None
  moreover have "chunk_cache s (cx, cz) = None"
    using assms None map_le_None unfolding agrees_def by metis
  ultimately show ?thesis
    by (simp add: get_chunk_fst agrees_get_region [OF assms])
next
  case (Some c)
  then have "fst (get_chunk e s cx cz) = Inr (Some c)"
    using assms unfolding agrees_def by blast
  with Some show ?thesis by (simp add: get_chunk_hit)
qed

lemma agrees_get_block:
  assumes "agrees e s s'"
  shows "fst (get_block e s' x y z) = fst (get_block e s x y z)"
  by (simp add: get_block_fst agrees_get_chunk [OF assms])

lemma map_le_upd_fresh: "m \<subseteq>\<^sub>m m' \<Longrightarrow> m k = None \<Longrightarrow> m \<subseteq>\<^sub>m m'(k \<mapsto> v)"
  by (auto simp add: map_le_def)

lemma agrees_calls: "agrees e s s' \<Longrightarrow> agrees e s (s'\<lparr>calls := cs\<rparr>)"
  by (simp add: agrees_def)

lemma agrees_add_region:
  assumes "agrees e s s'" and "region_cache s' (rx, rz) = None"
    and "fst (get_region e s rx rz) = Inr (Some r)"
  shows "agrees e s (s'\<lparr>region_cache := (region_cache s')((rx, rz) \<mapsto> r)\<rparr>)"
proof -
  have n: "region_cache s (rx, rz) = None"
    using assms(1,2) map_le_None unfolding agrees_def by metis
  have le: "region_cache s \<subseteq>\<^sub>m (region_cache s')((rx, rz) \<mapsto> r)"
    using assms(1) n by (simp add: agrees_def map_le_upd_fresh)
  have h: "\<forall>rx' rz' r'. ((region_cache s')((rx, rz) \<mapsto> r)) (rx', rz') = Some r'
             \<longrightarrow> fst (get_region e s rx' rz') = Inr (Some r')"
    using assms(1,3) unfolding agrees_def by (simp split: if_splits)
  show ?thesis
    using assms(1) le h unfolding agrees_def by simp
qed

lemma agrees_add_chunk:
  assumes "agrees e s s'" and "chunk_cache s' (cx, cz) = None"
    and "fst (get_chunk e s cx cz) = Inr (Some c)"
  shows "agrees e s (s'\<lparr>chunk_cache := (chunk_cache s')((cx, cz) \<mapsto> c)\<rparr>)"
proof -
  have n: "chunk_cache s (cx, cz) = None"
    using assms(1,2) map_le_None unfolding agrees_def by metis
  have le: "chunk_cache s \<subseteq>\<^sub>m (chunk_cache s')((cx, cz) \<mapsto> c)"
    using assms(1) n by (simp add: agrees_def map_le_upd_fresh)
  have h: "\<forall>cx' cz' c'. ((chunk_cache s')((cx, cz) \<mapsto> c)) (cx', cz') = Some c'
             \<longrightarrow> fst (get_chunk e s cx' cz') = Inr (Some c')"
    using assms(1,3) unfolding agrees_def by (simp split: if_splits)
  show ?thesis
    using assms(1) le h unfolding agrees_def by simp
qed

lemma agrees_step_region:
  assumes "agrees e s s'"
  shows "agrees e s (snd (get_region e s' rx rz))"
proof (cases "region_cache s' (rx, rz)")
  case (Some r)
  then show ?thesis using assms by (simp add: get_region_hit)
next
  case None
  have eq: "fst (get_region e s' rx rz) = fst (get_region e s rx rz)"
    by (rule agrees_get_region [OF assms])
  show ?thesis
  proof (cases "region_file e (world_directory s') rx rz")
    case (Inl ex)
    then show ?thesis using None assms by (simp add: get_region_miss)
  next
    case (Inr path)
    let ?cs = "calls s' @ [RegionLoad (rx, rz) path]"
    show ?thesis
    proof (cases "from_file e path")
      case (Inl ex)
      then show ?thesis using None Inr agrees_calls [OF assms, of ?cs]
        by (simp add: get_region_miss)
    next
      case r: (Inr r)
      then have "fst (get_region e s rx rz) = Inr (Some r)"
        using eq None Inr by (simp add: get_region_fst)
      then have "agrees e s (s'\<lparr>region_cache := (region_cache s')((rx, rz) \<mapsto> r)\<rparr>)"
        using assms None by (rule_tac agrees_add_region)
      then have "agrees e s (s'\<lparr>calls := ?cs,
          region_cache := (region_cache s')((rx, rz) \<mapsto> r)\<rparr>)"
        by (simp add: agrees_def)
      then show ?thesis using None Inr r
        by (simp add: get_region_miss)
    qed
  qed
qed

lemma agrees_step_chunk:
  assumes "agrees e s s'"
  shows "agrees e s (snd (get_chunk e s' cx cz))"
proof (cases "chunk_cache s' (cx, cz)")
  case (Some c)
  then show ?thesis using assms by (simp add: get_chunk_hit)
next
  case None
  obtain ro s1 where g: "get_region e s' (cx div 32) (cz div 32) = (ro, s1)"
    by (cases "get_region e s' (cx div 32) (cz div 32)")
  let ?cs = "calls s1 @ [ChunkDecode (cx, cz) (cx mod 32, cz mod 32)]"
  have a1: "agrees e s s1"
    using agrees_step_region [OF assms, of "cx div 32" "cz div 32"] g by simp
  have eq: "fst (get_chunk e s' cx cz) = fst (get_chunk e s cx cz)"
    by (rule agrees_get_chunk [OF assms])
  have n1: "chunk_cache s1 (cx, cz) = None"
    using get_region_chunk_cache [of e s' "cx div 32" "cz div 32"] g None by simp
  show ?thesis
  proof (cases ro)
    case (Inl ex)
    with g a1 show ?thesis by (simp add: get_chunk_snd [OF None])
  next
    case (Inr found)
    show ?thesis
    proof (cases found)
      case None
      with g a1 Inr show ?thesis
        by (simp add: get_chunk_snd [OF \<open>chunk_cache s' (cx, cz) = None\<close>])
    next
      case (Some r)
      show ?thesis
      proof (cases "region_get_chunk e r (cx mod 32) (cz mod 32)")
        case (Inl ex)
        with g Some Inr agrees_calls [OF a1, of ?cs] show ?thesis
          by (simp add: get_chunk_snd [OF \<open>chunk_cache s' (cx, cz) = None\<close>])
      next
        case c: (Inr c)
        have "fst (get_chunk e s' cx cz) = Inr (Some c)"
          using \<open>chunk_cache s' (cx, cz) = None\<close> g Some Inr c by (simp add: get_chunk_fst)
        then have "fst (get_chunk e s cx cz) = Inr (Some c)" using eq by simp
        then have "agrees e s (s1\<lparr>chunk_cache := (chunk_cache s1)((cx, cz) \<mapsto> c)\<rparr>)"
          using a1 n1 by (rule_tac agrees_add_chunk)
        then have "agrees e s (s1\<lparr>calls := ?cs,
            chunk_cache := (chunk_cache s1)((cx, cz) \<mapsto> c)\<rparr>)"
          by (simp add: agrees_def)
        then show ?thesis
          using g Some Inr c by (simp add: get_chunk_snd [OF \<open>chunk_cache s' (cx, cz) = None\<close>])
      qed
    qed
  qed
qed

lemma agrees_step_block:
  assumes "agrees e s s'"
  shows "agrees e s (snd (get_block e s' x y z))"
  using agrees_step_chunk [OF assms, of "chunk_coord x" "chunk_coord z"]
  by (auto simp add: get_block_snd agrees_def split: prod.splits option.splits sum.splits)

subsection \<open>Loops\<close>

lemma for_each_state_invariant:
  assumes step: "\<And>v m t. P t \<Longrightarrow> P (snd (body v (m, t)))" and init: "P s"
  shows "P (snd (for_each body vs (m, s)))"
  using init
proof (induction vs arbitrary: m s)
  case Nil
  then show ?case by simp
next
  case (Cons v vs)
  obtain r s1 where f: "body v (m, s) = (r, s1)" by (cases "body v (m, s)")
  have p1: "P s1" using step [OF Cons.prems, of v m] f by simp
  show ?case
  proof (cases r)
    case (Inl ex)
    with f p1 show ?thesis by simp
  next
    case (Inr m1)
    have "P (snd (for_each body vs (m1, s1)))" using p1 by (rule Cons.IH)
    with f Inr show ?thesis by simp
  qed
qed

lemma for_each_append:
  "for_each body (xs @ ys) acc =
     (case for_each body xs acc of
        (Inl ex, s1) \<Rightarrow> (Inl ex, s1)
      | (Inr acc1, s1) \<Rightarrow> for_each body ys (acc1, s1))"
  by (induction xs arbitrary: acc) (auto split: prod.splits sum.splits)

lemma for_each_map: "for_each body (map g xs) acc = for_each (\<lambda>x. body (g x)) xs acc"
  by (induction xs arbitrary: acc) (auto split: prod.splits sum.splits)

lemma for_each_product_acc:
  "for_each body (List.product xs ys) acc =
     for_each (\<lambda>x. for_each (\<lambda>y. body (x, y)) ys) xs acc"
  by (induction xs arbitrary: acc)
     (auto simp add: for_each_append for_each_map split: prod.splits sum.splits)

lemma for_each_product:
  "for_each body (List.product xs ys) = for_each (\<lambda>x. for_each (\<lambda>y. body (x, y)) ys) xs"
  by (rule ext) (rule for_each_product_acc)

lemma store_block_snd: "snd (store_block e (x, y, z) (m, s)) = snd (get_block e s x y z)"
  by (simp add: store_block_def split: prod.splits sum.splits)

lemma store_block_fst:
  "fst (store_block e (x, y, z) (m, s)) =
     (case fst (get_block e s x y z) of
        Inl ex \<Rightarrow> Inl ex
      | Inr b \<Rightarrow> Inr (m((x, y, z) \<mapsto> b)))"
  by (simp add: store_block_def split: prod.splits sum.splits)

lemma scan_voxel_snd: "snd (scan_voxel e x y z (m, s)) = snd (get_block e s x y z)"
  by (simp add: scan_voxel_def split: prod.splits sum.splits)

lemma scan_voxel_fst:
  "fst (scan_voxel e x y z (m, s)) =
     (case fst (get_block e s x y z) of
        Inl ex \<Rightarrow> Inl ex
      | Inr b \<Rightarrow> Inr (if b \<notin> air_blocks then m((x, y, z) \<mapsto> b) else m))"
  by (simp add: scan_voxel_def split: prod.splits sum.splits)

lemma get_multiple_blocks_invariant:
  assumes "\<And>t x y z. P t \<Longrightarrow> P (snd (get_block e t x y z))" and "P s"
  shows "P (snd (get_multiple_blocks e s cs))"
  unfolding get_multiple_blocks_def
proof (rule for_each_state_invariant [where P = P])
  fix v :: "int \<times> int \<times> int" and m :: blocks and t
  assume "P t"
  obtain x y z where v: "v = (x, y, z)" by (cases v)
  show "P (snd (store_block e v (m, t)))"
    unfolding v store_block_snd using \<open>P t\<close> by (rule assms(1))
qed (rule assms(2))

lemma scan_area_invariant:
  assumes step: "\<And>t x y z. P t \<Longrightarrow> P (snd (get_block e t x y z))" and init: "P s"
  shows "P (snd (scan_area e s x1 y1 z1 x2 y2 z2))"
proof -
  have v: "P (snd (scan_voxel e x y z (m, t)))" if "P t" for x y z m t
    unfolding scan_voxel_snd using that by (rule step)
  have zs: "P (snd (for_each (\<lambda>z. scan_voxel e x y z) l (m, t)))" if "P t" for x y l m t
    using v that by (rule for_each_state_invariant [where P = P])
  have ys: "P (snd (for_each (\<lambda>y. for_each (\<lambda>z. scan_voxel e x y z) l) l' (m, t)))"
    if "P t" for x l l' m t
    using zs that by (rule for_each_state_invariant [where P = P])
  show ?thesis
    unfolding scan_area_def using ys init by (rule for_each_state_invariant [where P = P])
qed

lemma exec_invariant:
  assumes r: "\<And>t rx rz. P t \<Longrightarrow> P (snd (get_region e t rx rz))"
    and c: "\<And>t cx cz. P t \<Longrightarrow> P (snd (get_chunk e t cx cz))"
    and b: "\<And>t x y z. P t \<Longrightarrow> P (snd (get_block e t x y z))"
    and init: "P s"
  shows "P (exec e op s)"
proof (cases op)
  case (GetBlock x y z)
  then show ?thesis using b [OF init] by simp
next
  case (GetChunk cx cz)
  then show ?thesis using c [OF init] by simp
next
  case (GetRegion rx rz)
  then show ?thesis using r [OF init] by simp
next
  case (GetMultipleBlocks cs)
  then show ?thesis using get_multiple_blocks_invariant [where P = P, OF b init] by simp
next
  case (ScanArea x1 y1 z1 x2 y2 z2)
  then show ?thesis using scan_area_invariant [where P = P, OF b init] by simp
qed

lemma run_invariant:
  assumes step: "\<And>e op t. P t \<Longrightarrow> P (exec e op t)" and init: "P s"
  shows "P (run ops s)"
  using init unfolding run_def
  by (induction ops arbitrary: s) (simp_all add: step)

lemma exec_grows: "grows s (exec e op s)"
proof (rule exec_invariant [where P = "grows s"])
  show "grows s s" by (rule grows_refl)
qed (blast intro: grows_trans get_region_grows get_chunk_grows get_block_grows)+

lemma run_grows: "grows s (run ops s)"
proof (rule run_invariant [where P = "grows s"])
  show "grows s s" by (rule grows_refl)
qed (blast intro: grows_trans exec_grows)

lemma exec_inv: "chunks_have_regions s \<Longrightarrow> chunks_have_regions (exec e op s)"
  by (rule exec_invariant [where P = chunks_have_regions])
     (simp_all add: get_region_inv get_chunk_inv get_block_inv)

lemma run_inv: "chunks_have_regions s \<Longrightarrow> chunks_have_regions (run ops s)"
  by (rule run_invariant [where P = chunks_have_regions]) (simp_all add: exec_inv)

subsection \<open>What the loops collect\<close>

text \<open>
  Both loops run a body that looks one voxel up and, when the lookup returns a name the
  loop keeps, stores it under the voxel's coordinate.
\<close>

lemma collect_agrees:
  assumes ss: "\<And>c m t. snd (step c (m, t)) = snd (get_block e t (fst c) (fst (snd c)) (snd (snd c)))"
    and a: "agrees e s s'"
  shows "agrees e s (snd (for_each step vs (m, s')))"
proof (rule for_each_state_invariant [where P = "agrees e s"])
  fix v m t assume "agrees e s t"
  then show "agrees e s (snd (step v (m, t)))"
    unfolding ss by (rule agrees_step_block)
qed (rule a)

lemma collect_same:
  assumes sf: "\<And>c m t. fst (step c (m, t)) =
      (case fst (get_block e t (fst c) (fst (snd c)) (snd (snd c))) of
         Inl ex \<Rightarrow> Inl ex
       | Inr b \<Rightarrow> Inr (if keep b then m(c \<mapsto> b) else m))"
    and ss: "\<And>c m t. snd (step c (m, t)) = snd (get_block e t (fst c) (fst (snd c)) (snd (snd c)))"
    and "agrees e s sa" and "agrees e s sb"
  shows "fst (for_each step vs (m, sa)) = fst (for_each step vs (m, sb))"
  using assms(3,4)
proof (induction vs arbitrary: m sa sb)
  case Nil
  show ?case by simp
next
  case (Cons v vs)
  let ?name = "fst (get_block e s (fst v) (fst (snd v)) (snd (snd v)))"
  have na: "fst (get_block e sa (fst v) (fst (snd v)) (snd (snd v))) = ?name"
    by (rule agrees_get_block [OF Cons.prems(1)])
  have nb: "fst (get_block e sb (fst v) (fst (snd v)) (snd (snd v))) = ?name"
    by (rule agrees_get_block [OF Cons.prems(2)])
  obtain ra ta where fa: "step v (m, sa) = (ra, ta)" by (cases "step v (m, sa)")
  obtain rb tb where fb: "step v (m, sb) = (rb, tb)" by (cases "step v (m, sb)")
  have ra: "ra = (case ?name of Inl ex \<Rightarrow> Inl ex
                  | Inr b \<Rightarrow> Inr (if keep b then m(v \<mapsto> b) else m))"
    using sf [of v m sa] fa na by simp
  have rb: "rb = (case ?name of Inl ex \<Rightarrow> Inl ex
                  | Inr b \<Rightarrow> Inr (if keep b then m(v \<mapsto> b) else m))"
    using sf [of v m sb] fb nb by simp
  have ta: "agrees e s ta"
    using agrees_step_block [OF Cons.prems(1), of "fst v" "fst (snd v)" "snd (snd v)"]
      ss [of v m sa] fa by simp
  have tb: "agrees e s tb"
    using agrees_step_block [OF Cons.prems(2), of "fst v" "fst (snd v)" "snd (snd v)"]
      ss [of v m sb] fb by simp
  show ?case
  proof (cases ?name)
    case (Inl ex)
    then show ?thesis using fa fb ra rb by simp
  next
    case (Inr b)
    let ?m1 = "if keep b then m(v \<mapsto> b) else m"
    have "fst (for_each step vs (?m1, ta)) = fst (for_each step vs (?m1, tb))"
      using ta tb by (rule Cons.IH)
    then show ?thesis using fa fb ra rb Inr by simp
  qed
qed

lemma collect_contents:
  assumes sf: "\<And>c m t. fst (step c (m, t)) =
      (case fst (get_block e t (fst c) (fst (snd c)) (snd (snd c))) of
         Inl ex \<Rightarrow> Inl ex
       | Inr b \<Rightarrow> Inr (if keep b then m(c \<mapsto> b) else m))"
    and ss: "\<And>c m t. snd (step c (m, t)) = snd (get_block e t (fst c) (fst (snd c)) (snd (snd c)))"
    and "agrees e s s'" and "for_each step vs (m, s') = (Inr m', s'')"
  shows "(\<forall>c \<in> set vs. \<exists>b. fst (get_block e s (fst c) (fst (snd c)) (snd (snd c))) = Inr b)
    \<and> (\<forall>k. m' k =
          (case fst (get_block e s (fst k) (fst (snd k)) (snd (snd k))) of
             Inr b \<Rightarrow> if k \<in> set vs \<and> keep b then Some b else m k
           | Inl ex \<Rightarrow> m k))"
  using assms(3,4)
proof (induction vs arbitrary: m s')
  case Nil
  then show ?case by (simp split: sum.splits)
next
  case (Cons v vs)
  let ?name = "\<lambda>k. fst (get_block e s (fst k) (fst (snd k)) (snd (snd k)))"
  have n: "fst (get_block e s' (fst v) (fst (snd v)) (snd (snd v))) = ?name v"
    by (rule agrees_get_block [OF Cons.prems(1)])
  obtain r t where f: "step v (m, s') = (r, t)" by (cases "step v (m, s')")
  have r: "r = (case ?name v of Inl ex \<Rightarrow> Inl ex
                | Inr b \<Rightarrow> Inr (if keep b then m(v \<mapsto> b) else m))"
    using sf [of v m s'] f n by simp
  have t: "agrees e s t"
    using agrees_step_block [OF Cons.prems(1), of "fst v" "fst (snd v)" "snd (snd v)"]
      ss [of v m s'] f by simp
  show ?case
  proof (cases "?name v")
    case (Inl ex)
    then have "for_each step (v # vs) (m, s') = (Inl ex, t)" using f r by simp
    with Cons.prems(2) show ?thesis by simp
  next
    case (Inr b)
    let ?m1 = "if keep b then m(v \<mapsto> b) else m"
    have rest: "for_each step vs (?m1, t) = (Inr m', s'')"
      using Cons.prems(2) f r Inr by simp
    note ih = Cons.IH [OF t rest]
    have all: "\<forall>c \<in> set (v # vs). \<exists>b. ?name c = Inr b"
      using ih Inr by auto
    have ihk: "m' k = (case ?name k of
             Inr b' \<Rightarrow> if k \<in> set vs \<and> keep b' then Some b' else ?m1 k
           | Inl ex \<Rightarrow> ?m1 k)" for k
      using ih by blast
    have each: "m' k = (case ?name k of
             Inr b \<Rightarrow> if k \<in> set (v # vs) \<and> keep b then Some b else m k
           | Inl ex \<Rightarrow> m k)" for k
    proof (cases "k = v")
      case True
      then show ?thesis using ihk [of k] Inr by (simp split: sum.splits)
    next
      case False
      then show ?thesis using ihk [of k] by (simp split: sum.splits)
    qed
    from all each show ?thesis by blast
  qed
qed

lemma collect_returns:
  assumes sf: "\<And>c m t. fst (step c (m, t)) =
      (case fst (get_block e t (fst c) (fst (snd c)) (snd (snd c))) of
         Inl ex \<Rightarrow> Inl ex
       | Inr b \<Rightarrow> Inr (if keep b then m(c \<mapsto> b) else m))"
    and ss: "\<And>c m t. snd (step c (m, t)) = snd (get_block e t (fst c) (fst (snd c)) (snd (snd c)))"
    and "agrees e s s'"
    and "\<forall>c \<in> set vs. \<exists>b. fst (get_block e s (fst c) (fst (snd c)) (snd (snd c))) = Inr b"
  shows "\<exists>m' s''. for_each step vs (m, s') = (Inr m', s'')"
  using assms(3,4)
proof (induction vs arbitrary: m s')
  case Nil
  show ?case by simp
next
  case (Cons v vs)
  let ?name = "\<lambda>k. fst (get_block e s (fst k) (fst (snd k)) (snd (snd k)))"
  have n: "fst (get_block e s' (fst v) (fst (snd v)) (snd (snd v))) = ?name v"
    by (rule agrees_get_block [OF Cons.prems(1)])
  obtain b where b: "?name v = Inr b" using Cons.prems(2) by auto
  obtain r t where f: "step v (m, s') = (r, t)" by (cases "step v (m, s')")
  have r: "r = Inr (if keep b then m(v \<mapsto> b) else m)"
    using sf [of v m s'] f n b by simp
  have t: "agrees e s t"
    using agrees_step_block [OF Cons.prems(1), of "fst v" "fst (snd v)" "snd (snd v)"]
      ss [of v m s'] f by simp
  have "\<exists>m' s''. for_each step vs (if keep b then m(v \<mapsto> b) else m, t) = (Inr m', s'')"
    using t Cons.prems(2) by (intro Cons.IH) simp_all
  then show ?case using f r by simp
qed

subsection \<open>The two loops of the reader\<close>

lemma scan_area_flat:
  "scan_area e s x1 y1 z1 x2 y2 z2 =
     for_each (\<lambda>c. scan_voxel e (fst c) (fst (snd c)) (snd (snd c)))
          (List.product (range_py (min x1 x2) (max x1 x2 + 1))
             (List.product (range_py (min y1 y2) (max y1 y2 + 1))
                           (range_py (min z1 z2) (max z1 z2 + 1))))
          (Map.empty, s)"
  by (simp add: scan_area_def for_each_product)

lemma set_range_py: "set (range_py a (b + 1)) = {a..b}"
  by (simp add: range_py_def)

lemma box_voxels:
  "c \<in> set (List.product (range_py (min x1 x2) (max x1 x2 + 1))
             (List.product (range_py (min y1 y2) (max y1 y2 + 1))
                           (range_py (min z1 z2) (max z1 z2 + 1))))
   \<longleftrightarrow> in_box x1 y1 z1 x2 y2 z2 c"
  by (cases c) (auto simp add: in_box_def set_range_py)

lemma scan_step_fst:
  "fst (scan_voxel e (fst c) (fst (snd c)) (snd (snd c)) (m, t)) =
     (case fst (get_block e t (fst c) (fst (snd c)) (snd (snd c))) of
        Inl ex \<Rightarrow> Inl ex
      | Inr b \<Rightarrow> Inr (if b \<notin> air_blocks then m(c \<mapsto> b) else m))"
  by (cases c) (simp add: scan_voxel_fst split: sum.splits)

lemma scan_step_snd:
  "snd (scan_voxel e (fst c) (fst (snd c)) (snd (snd c)) (m, t)) =
     snd (get_block e t (fst c) (fst (snd c)) (snd (snd c)))"
  by (simp add: scan_voxel_snd)

lemma store_step_fst:
  "fst (store_block e c (m, t)) =
     (case fst (get_block e t (fst c) (fst (snd c)) (snd (snd c))) of
        Inl ex \<Rightarrow> Inl ex
      | Inr b \<Rightarrow> Inr (if True then m(c \<mapsto> b) else m))"
  by (cases c) (simp add: store_block_fst split: sum.splits)

lemma store_step_snd:
  "snd (store_block e c (m, t)) = snd (get_block e t (fst c) (fst (snd c)) (snd (snd c)))"
  by (cases c) (simp add: store_block_snd)

lemma scan_area_agrees:
  assumes "agrees e s s'"
  shows "agrees e s (snd (scan_area e s' x1 y1 z1 x2 y2 z2))"
  unfolding scan_area_flat by (rule collect_agrees [OF scan_step_snd assms])

lemma scan_area_same:
  assumes "agrees e s s'"
  shows "fst (scan_area e s' x1 y1 z1 x2 y2 z2) = fst (scan_area e s x1 y1 z1 x2 y2 z2)"
  unfolding scan_area_flat
  by (rule collect_same [OF scan_step_fst scan_step_snd assms agrees_refl])

lemma scan_area_from_agreeing:
  assumes "agrees e s s'" and "scan_area e s' x1 y1 z1 x2 y2 z2 = (Inr blocks, s'')"
  shows "(in_box x1 y1 z1 x2 y2 z2 (x, y, z) \<longrightarrow> (\<exists>b. fst (get_block e s x y z) = Inr b))
    \<and> blocks (x, y, z) =
        (case fst (get_block e s x y z) of
           Inr b \<Rightarrow> if in_box x1 y1 z1 x2 y2 z2 (x, y, z) \<and> b \<notin> air_blocks then Some b else None
         | Inl ex \<Rightarrow> None)"
proof -
  note c = collect_contents [OF scan_step_fst scan_step_snd assms(1)
      assms(2) [unfolded scan_area_flat]]
  from c have 1: "in_box x1 y1 z1 x2 y2 z2 (x, y, z) \<longrightarrow> (\<exists>b. fst (get_block e s x y z) = Inr b)"
    unfolding Ball_def box_voxels by fastforce
  from c have "blocks (x, y, z) =
        (case fst (get_block e s (fst (x, y, z)) (fst (snd (x, y, z))) (snd (snd (x, y, z)))) of
           Inr b \<Rightarrow> if in_box x1 y1 z1 x2 y2 z2 (x, y, z) \<and> b \<notin> air_blocks
                    then Some b else Map.empty (x, y, z)
         | Inl ex \<Rightarrow> Map.empty (x, y, z))"
    unfolding box_voxels by blast
  then have 2: "blocks (x, y, z) =
        (case fst (get_block e s x y z) of
           Inr b \<Rightarrow> if in_box x1 y1 z1 x2 y2 z2 (x, y, z) \<and> b \<notin> air_blocks then Some b else None
         | Inl ex \<Rightarrow> None)"
    by simp
  from 1 2 show ?thesis by blast
qed

lemma scan_area_returns:
  assumes "agrees e s s'"
    and "\<forall>x y z. in_box x1 y1 z1 x2 y2 z2 (x, y, z) \<longrightarrow> (\<exists>b. fst (get_block e s x y z) = Inr b)"
  shows "\<exists>blocks s''. scan_area e s' x1 y1 z1 x2 y2 z2 = (Inr blocks, s'')"
  unfolding scan_area_flat
proof (rule collect_returns [OF scan_step_fst scan_step_snd assms(1)])
  show "\<forall>c\<in>set (List.product (range_py (min x1 x2) (max x1 x2 + 1))
             (List.product (range_py (min y1 y2) (max y1 y2 + 1))
                           (range_py (min z1 z2) (max z1 z2 + 1)))).
       \<exists>b. fst (get_block e s (fst c) (fst (snd c)) (snd (snd c))) = Inr b"
  proof
    fix c
    assume "c \<in> set (List.product (range_py (min x1 x2) (max x1 x2 + 1))
             (List.product (range_py (min y1 y2) (max y1 y2 + 1))
                           (range_py (min z1 z2) (max z1 z2 + 1))))"
    then have b: "in_box x1 y1 z1 x2 y2 z2 c" by (simp only: box_voxels)
    obtain x y z where c: "c = (x, y, z)" by (cases c)
    from b assms(2) show "\<exists>b. fst (get_block e s (fst c) (fst (snd c)) (snd (snd c))) = Inr b"
      unfolding c by simp
  qed
qed

lemma get_multiple_blocks_agrees:
  assumes "agrees e s s'"
  shows "agrees e s (snd (get_multiple_blocks e s' cs))"
  unfolding get_multiple_blocks_def by (rule collect_agrees [OF store_step_snd assms])

lemma get_multiple_blocks_from_agreeing:
  assumes "agrees e s s'" and "get_multiple_blocks e s' cs = (Inr results, s'')"
  shows "((x, y, z) \<in> set cs \<longrightarrow> (\<exists>b. fst (get_block e s x y z) = Inr b))
    \<and> results (x, y, z) =
        (case fst (get_block e s x y z) of
           Inr b \<Rightarrow> if (x, y, z) \<in> set cs then Some b else None
         | Inl ex \<Rightarrow> None)"
proof -
  note c = collect_contents [OF store_step_fst store_step_snd assms(1)
      assms(2) [unfolded get_multiple_blocks_def]]
  from c have 1: "(x, y, z) \<in> set cs \<longrightarrow> (\<exists>b. fst (get_block e s x y z) = Inr b)"
    by fastforce
  from c have "results (x, y, z) =
        (case fst (get_block e s (fst (x, y, z)) (fst (snd (x, y, z))) (snd (snd (x, y, z)))) of
           Inr b \<Rightarrow> if (x, y, z) \<in> set cs \<and> True then Some b else Map.empty (x, y, z)
         | Inl ex \<Rightarrow> Map.empty (x, y, z))"
    by blast
  then have 2: "results (x, y, z) =
        (case fst (get_block e s x y z) of
           Inr b \<Rightarrow> if (x, y, z) \<in> set cs then Some b else None
         | Inl ex \<Rightarrow> None)"
    by (simp split: sum.splits)
  from 1 2 show ?thesis by blast
qed

lemma get_multiple_blocks_returns:
  assumes "agrees e s s'"
    and "\<forall>x y z. (x, y, z) \<in> set cs \<longrightarrow> (\<exists>b. fst (get_block e s x y z) = Inr b)"
  shows "\<exists>results s''. get_multiple_blocks e s' cs = (Inr results, s'')"
  unfolding get_multiple_blocks_def
proof (rule collect_returns [OF store_step_fst store_step_snd assms(1)])
  show "\<forall>c\<in>set cs. \<exists>b. fst (get_block e s (fst c) (fst (snd c)) (snd (snd c))) = Inr b"
    using assms(2) by auto
qed

subsection \<open>When a lookup returns\<close>

lemma format_int_printable:
  "format_int e i = (if printable e i then Inr (str_int i) else Inl (int_str_error e))"
  by (auto simp add: format_int_def printable_def)

lemma printable_mono:
  assumes "\<bar>i\<bar> \<le> \<bar>j\<bar>" and "printable e j"
  shows "printable e i"
proof -
  have "nat \<bar>i\<bar> \<le> nat \<bar>j\<bar>" using assms(1) by simp
  then have "num_digits i \<le> num_digits j"
    unfolding num_digits_def by (rule str_nat_length_mono)
  with assms(2) show ?thesis by (auto simp add: printable_def)
qed

lemma printable_between:
  assumes "printable e a" and "printable e b" and "min a b \<le> i" and "i \<le> max a b"
  shows "printable e i"
proof -
  have "\<bar>i\<bar> \<le> \<bar>a\<bar> \<or> \<bar>i\<bar> \<le> \<bar>b\<bar>" using assms(3,4) by (auto simp add: min_def max_def split: if_splits)
  with assms(1,2) show ?thesis using printable_mono by blast
qed

lemma block_error_message_printable:
  assumes "printable e x" and "printable e y" and "printable e z"
  shows "\<exists>message. block_error_message e x y z ex = Inr message"
  using assms by (simp add: block_error_message_def format_int_printable)

lemma block_error_message_raises:
  assumes "\<not> (printable e x \<and> printable e y \<and> printable e z)"
  shows "block_error_message e x y z ex = Inl (int_str_error e)"
  using assms by (auto simp add: block_error_message_def format_int_printable)

lemma get_block_returns:
  assumes "printable e x" and "printable e y" and "printable e z"
  shows "\<exists>b. fst (get_block e s x y z) = Inr b"
proof -
  have m: "\<exists>message. block_error_message e x y z ex = Inr message" for ex
    using assms by (rule block_error_message_printable)
  show ?thesis
  proof (cases "fst (get_chunk e s (chunk_coord x) (chunk_coord z))")
    case (Inl ex)
    then show ?thesis using m [of ex] by (auto simp add: get_block_fst)
  next
    case (Inr found)
    show ?thesis
    proof (cases found)
      case None
      with Inr show ?thesis by (simp add: get_block_fst)
    next
      case (Some c)
      show ?thesis
      proof (cases "chunk_get_block e c (block_offset x) y (block_offset z)")
        case (Inl ex)
        with Inr Some m [of ex] show ?thesis by (auto simp add: get_block_fst)
      next
        case b: (Inr b)
        with Inr Some show ?thesis by (simp add: get_block_fst)
      qed
    qed
  qed
qed

section \<open>Coordinate decomposition\<close>

lemma block_offset_mod: "block_offset x = x mod 16"
proof -
  have "x AND 15 = x AND mask 4" by (simp add: mask_eq_exp_minus_1)
  also have "\<dots> = take_bit 4 x" by (simp add: take_bit_eq_mask)
  also have "\<dots> = x mod 16" by (simp add: take_bit_eq_mod)
  finally show ?thesis by (simp add: block_offset_def)
qed

lemma chunk_coord_div: "chunk_coord x = x div 16"
  by (simp add: chunk_coord_def drop_bit_eq_div)

text \<open>
  C2: splitting a coordinate into \<^verbatim>\<open>x >> 4\<close> and \<^verbatim>\<open>x & 15\<close> loses nothing, for every
  integer, negative ones included: the shift is floor division by 16, the mask is the
  remainder in \<open>[0, 16)\<close>, and sixteen times the first plus the second is \<open>x\<close> again.
\<close>

theorem decompose_recompose:
  "chunk_coord x * 16 + block_offset x = x
   \<and> chunk_coord x = x div 16
   \<and> block_offset x = x mod 16
   \<and> 0 \<le> block_offset x \<and> block_offset x < 16"
  by (simp add: block_offset_mod chunk_coord_div)

theorem decompose_recompose_witness:
  "chunk_coord (- 17) = - 2 \<and> block_offset (- 17) = 15 \<and> (- 2) * 16 + 15 = (- 17 :: int)"
  using decompose_recompose [of "- 17"] by simp

section \<open>The stub world, evaluated\<close>

lemma init_fresh: "init_reader stub_env ''w'' = Inr fresh_reader"
  by (simp add: init_reader_def stub_env_def fresh_reader_def path_join_def)

lemma format_int_one_digit: "\<bar>i\<bar> < 10 \<Longrightarrow> format_int e i = Inr (str_int i)"
proof -
  assume "\<bar>i\<bar> < 10"
  then have "nat \<bar>i\<bar> < 10" by simp
  then have "num_digits i = 1" unfolding num_digits_def by (subst str_nat.simps) simp
  then show ?thesis by (auto simp add: format_int_def)
qed

lemma str_int_0: "str_int 0 = ''0''"
  by (simp add: str_int_def str_nat.simps digit_char_def)

lemma str_int_m1: "str_int (- 1) = ''-1''"
  by (simp add: str_int_def str_nat.simps digit_char_def)

lemma region_file_0_0: "region_file e ''w/region'' 0 0 = Inr ''w/region/r.0.0.mca''"
  by (simp add: region_file_def format_int_one_digit str_int_0 path_join_def)

lemma region_file_m1_0: "region_file e ''w/region'' (- 1) 0 = Inr ''w/region/r.-1.0.mca''"
  by (simp add: region_file_def format_int_one_digit str_int_0 str_int_m1 path_join_def)

lemma stub_limit: "int_max_str_digits stub_env = 4300" "int_max_str_digits bare_env = 4300"
  by (simp_all add: stub_env_def bare_env_def)

lemma printable_three_digits:
  assumes "\<bar>i\<bar> < 1000"
  shows "printable stub_env i" and "printable bare_env i"
proof -
  have "nat \<bar>i\<bar> \<le> 10 ^ 3" using assms by simp
  then have "length (str_nat (nat \<bar>i\<bar>)) \<le> length (str_nat (10 ^ 3))"
    by (rule str_nat_length_mono)
  then have "num_digits i \<le> 3 + 1" by (simp only: num_digits_def str_nat_length_power)
  then show "printable stub_env i" and "printable bare_env i"
    by (simp_all add: printable_def stub_limit)
qed

lemmas stub_eval =
  get_block_def get_block_try_def get_chunk_def get_region_def fresh_reader_def
  stub_env_def bare_env_def region_file_0_0 region_file_m1_0
  chunk_error_message_def block_error_message_def format_int_one_digit
  chunk_coord_div block_offset_mod Let_def

section \<open>Negative results are not cached\<close>

text \<open>
  C10: when \<^verbatim>\<open>_get_region\<close> returns \<^verbatim>\<open>None\<close>, the region was not cached, the path
  was built, and the library failed to load the file; the region cache is left as it
  was, and one load of the constructed path has been made. The next resolution of the
  same region, against whatever the world outside is then (\<open>e'\<close>), builds the path and
  loads it again: under the same limit on integer strings it returns what that load
  gives.
\<close>

theorem get_region_absent_not_cached:
  assumes "get_region e s rx rz = (Inr None, s')"
  shows "region_cache s' = region_cache s
    \<and> region_cache s' (rx, rz) = None
    \<and> (\<exists>path ex. region_file e (world_directory s) rx rz = Inr path
           \<and> from_file e path = Inl ex
           \<and> calls s' = calls s @ [RegionLoad (rx, rz) path]
           \<and> (int_max_str_digits e' = int_max_str_digits e \<longrightarrow>
                fst (get_region e' s' rx rz) =
                  (case from_file e' path of Inr r \<Rightarrow> Inr (Some r) | Inl ex \<Rightarrow> Inr None)
                \<and> calls (snd (get_region e' s' rx rz)) = calls s' @ [RegionLoad (rx, rz) path]))
    \<and> fst (get_region e' s' rx rz) =
        (case region_file e' (world_directory s) rx rz of
           Inl ex \<Rightarrow> Inl ex
         | Inr path \<Rightarrow> (case from_file e' path of Inr r \<Rightarrow> Inr (Some r) | Inl ex \<Rightarrow> Inr None))"
proof (cases "region_cache s (rx, rz)")
  case (Some r)
  with assms show ?thesis by (simp add: get_region_hit)
next
  case None
  show ?thesis
  proof (cases "region_file e (world_directory s) rx rz")
    case (Inl ex)
    with None assms show ?thesis by (simp add: get_region_miss)
  next
    case (Inr path)
    show ?thesis
    proof (cases "from_file e path")
      case r: (Inr r)
      with None Inr assms show ?thesis by (simp add: get_region_miss)
    next
      case (Inl ex)
      with None Inr assms have s': "s' = s\<lparr>calls := calls s @ [RegionLoad (rx, rz) path]\<rparr>"
        by (simp add: get_region_miss)
      have n': "region_cache s' (rx, rz) = None" using None s' by simp
      have w': "world_directory s' = world_directory s" using s' by simp
      have c': "calls s' = calls s @ [RegionLoad (rx, rz) path]" using s' by simp
      have r': "region_cache s' = region_cache s" using s' by simp
      have general: "fst (get_region e' s' rx rz) =
        (case region_file e' (world_directory s) rx rz of
           Inl ex \<Rightarrow> Inl ex
         | Inr path \<Rightarrow> (case from_file e' path of Inr r \<Rightarrow> Inr (Some r) | Inl ex \<Rightarrow> Inr None))"
        using n' w' by (simp add: get_region_fst)
      have same_path: "region_file e' (world_directory s) rx rz = Inr path"
        if "int_max_str_digits e' = int_max_str_digits e"
        using Inr that
        by (simp add: region_file_def format_int_def int_str_error_def split: sum.splits if_splits)
      have again: "fst (get_region e' s' rx rz) =
          (case from_file e' path of Inr r \<Rightarrow> Inr (Some r) | Inl ex \<Rightarrow> Inr None)"
        if "int_max_str_digits e' = int_max_str_digits e"
        using general same_path [OF that] by simp
      have logged: "calls (snd (get_region e' s' rx rz)) = calls s' @ [RegionLoad (rx, rz) path]"
        if "int_max_str_digits e' = int_max_str_digits e"
        using n' w' same_path [OF that] by (simp add: get_region_miss split: sum.splits)
      show ?thesis
        using Inr Inl n' c' r' general again logged by blast
    qed
  qed
qed

theorem get_region_absent_not_cached_witness:
  "get_region bare_env fresh_reader 0 0 =
     (Inr None, fresh_reader\<lparr>calls := [RegionLoad (0, 0) ''w/region/r.0.0.mca'']\<rparr>)
   \<and> region_cache (fresh_reader\<lparr>calls := [RegionLoad (0, 0) ''w/region/r.0.0.mca'']\<rparr>) (0, 0)
       = None
   \<and> fst (get_region stub_env
            (fresh_reader\<lparr>calls := [RegionLoad (0, 0) ''w/region/r.0.0.mca'']\<rparr>) 0 0)
       = Inr (Some 1)"
proof -
  let ?s' = "fresh_reader\<lparr>calls := [RegionLoad (0, 0) ''w/region/r.0.0.mca'']\<rparr>"
  have h: "get_region bare_env fresh_reader 0 0 = (Inr None, ?s')"
    by (simp add: stub_eval)
  have p: "region_file stub_env (world_directory fresh_reader) 0 0 = Inr ''w/region/r.0.0.mca''"
    by (simp add: fresh_reader_def region_file_0_0)
  have f: "from_file stub_env ''w/region/r.0.0.mca'' = Inr 1"
    by (simp add: stub_env_def)
  note t = get_region_absent_not_cached [OF h, of stub_env]
  from t have "fst (get_region stub_env ?s' 0 0) =
      (case region_file stub_env (world_directory fresh_reader) 0 0 of
         Inl ex \<Rightarrow> Inl ex
       | Inr path \<Rightarrow> (case from_file stub_env path of
                       Inr r \<Rightarrow> Inr (Some r) | Inl ex \<Rightarrow> Inr None))"
    by blast
  then have again: "fst (get_region stub_env ?s' 0 0) = Inr (Some 1)"
    by (simp only: p f sum.case)
  from t have "region_cache ?s' (0, 0) = None" by blast
  with h again show ?thesis by blast
qed

text \<open>
  C7: when \<^verbatim>\<open>_get_chunk\<close> returns \<^verbatim>\<open>None\<close>, either the region was absent or the
  library failed to decode the chunk's slot; the chunk cache is left exactly as it was,
  with no entry for that chunk, and the next resolution of the same chunk resolves the
  region again and answers from what it finds then.
\<close>

theorem get_chunk_absent_not_cached:
  assumes "get_chunk e s cx cz = (Inr None, s')"
  shows "chunk_cache s' = chunk_cache s
    \<and> chunk_cache s' (cx, cz) = None
    \<and> (fst (get_region e s (cx div 32) (cz div 32)) = Inr None
        \<or> (\<exists>r ex. fst (get_region e s (cx div 32) (cz div 32)) = Inr (Some r)
                 \<and> region_get_chunk e r (cx mod 32) (cz mod 32) = Inl ex))
    \<and> fst (get_chunk e' s' cx cz) =
        (case fst (get_region e' s' (cx div 32) (cz div 32)) of
           Inl ex \<Rightarrow> Inl ex
         | Inr None \<Rightarrow> Inr None
         | Inr (Some r) \<Rightarrow>
             (case region_get_chunk e' r (cx mod 32) (cz mod 32) of
                Inr c \<Rightarrow> Inr (Some c)
              | Inl ex \<Rightarrow> (case chunk_error_message e' cx cz ex of
                            Inl ex' \<Rightarrow> Inl ex' | Inr message \<Rightarrow> Inr None)))"
proof (cases "chunk_cache s (cx, cz)")
  case (Some c)
  with assms show ?thesis by (simp add: get_chunk_hit)
next
  case None
  obtain ro s1 where g: "get_region e s (cx div 32) (cz div 32) = (ro, s1)"
    by (cases "get_region e s (cx div 32) (cz div 32)")
  have c1: "chunk_cache s1 = chunk_cache s"
    using get_region_chunk_cache [of e s "cx div 32" "cz div 32"] g by simp
  have s': "s' = snd (get_chunk e s cx cz)" using assms by simp
  have r: "fst (get_chunk e s cx cz) = Inr None" using assms by simp
  have why: "fst (get_region e s (cx div 32) (cz div 32)) = Inr None
        \<or> (\<exists>r ex. fst (get_region e s (cx div 32) (cz div 32)) = Inr (Some r)
                 \<and> region_get_chunk e r (cx mod 32) (cz mod 32) = Inl ex)"
    using r None by (auto simp add: get_chunk_fst split: option.splits sum.splits)
  have cc: "chunk_cache s' = chunk_cache s"
    using r None g c1 unfolding s' get_chunk_snd [OF None]
    by (auto simp add: get_chunk_fst split: option.splits sum.splits)
  have n': "chunk_cache s' (cx, cz) = None" using cc None by simp
  show ?thesis
    using cc n' why by (simp add: get_chunk_fst)
qed

theorem get_chunk_absent_not_cached_witness:
  "get_chunk bare_env fresh_reader 0 0 =
     (Inr None, fresh_reader\<lparr>calls := [RegionLoad (0, 0) ''w/region/r.0.0.mca'']\<rparr>)
   \<and> chunk_cache (fresh_reader\<lparr>calls := [RegionLoad (0, 0) ''w/region/r.0.0.mca'']\<rparr>) (0, 0)
       = None
   \<and> fst (get_chunk stub_env
            (fresh_reader\<lparr>calls := [RegionLoad (0, 0) ''w/region/r.0.0.mca'']\<rparr>) 0 0)
       = Inr (Some 7)"
proof -
  let ?s' = "fresh_reader\<lparr>calls := [RegionLoad (0, 0) ''w/region/r.0.0.mca'']\<rparr>"
  have h: "get_chunk bare_env fresh_reader 0 0 = (Inr None, ?s')"
    by (simp add: stub_eval)
  have r: "fst (get_region stub_env ?s' (0 div 32) (0 div 32)) = Inr (Some 1)"
    by (simp add: stub_eval)
  have c: "region_get_chunk stub_env 1 (0 mod 32) (0 mod 32) = Inr 7"
    by (simp add: stub_eval)
  note t = get_chunk_absent_not_cached [OF h, of stub_env]
  from t have "fst (get_chunk stub_env ?s' 0 0) =
      (case fst (get_region stub_env ?s' (0 div 32) (0 div 32)) of
         Inl ex \<Rightarrow> Inl ex
       | Inr None \<Rightarrow> Inr None
       | Inr (Some r) \<Rightarrow>
           (case region_get_chunk stub_env r (0 mod 32) (0 mod 32) of
              Inr c \<Rightarrow> Inr (Some c)
            | Inl ex \<Rightarrow> (case chunk_error_message stub_env 0 0 ex of
                          Inl ex' \<Rightarrow> Inl ex' | Inr message \<Rightarrow> Inr None)))"
    by blast
  then have again: "fst (get_chunk stub_env ?s' 0 0) = Inr (Some 7)"
    by (simp only: r c option.case sum.case)
  from t have "chunk_cache ?s' (0, 0) = None" by blast
  with h again show ?thesis by blast
qed

section \<open>Block lookup\<close>

lemma get_block_raises_unprintable_region:
  assumes "chunk_cache s (chunk_coord x, chunk_coord z) = None"
    and "region_cache s (chunk_coord x div 32, chunk_coord z div 32) = None"
    and "\<not> printable e (chunk_coord x div 32)"
    and "\<not> printable e x"
  shows "fst (get_block e s x y z) = Inl (int_str_error e)"
proof -
  have "region_file e (world_directory s) (chunk_coord x div 32) (chunk_coord z div 32)
      = Inl (int_str_error e)"
    using assms(3) by (simp add: region_file_def format_int_printable)
  then have "fst (get_region e s (chunk_coord x div 32) (chunk_coord z div 32))
      = Inl (int_str_error e)"
    using assms(2) by (simp add: get_region_fst)
  then have "fst (get_chunk e s (chunk_coord x) (chunk_coord z)) = Inl (int_str_error e)"
    using assms(1) by (simp add: get_chunk_fst)
  moreover have "block_error_message e x y z (int_str_error e) = Inl (int_str_error e)"
    using assms(4) by (simp add: block_error_message_raises)
  ultimately show ?thesis by (simp add: get_block_fst)
qed

lemma get_block_raises_bad_voxel:
  assumes "fst (get_chunk e s (chunk_coord x) (chunk_coord z)) = Inr (Some c)"
    and "chunk_get_block e c (block_offset x) y (block_offset z) = Inl ex"
    and "\<not> printable e y"
  shows "fst (get_block e s x y z) = Inl (int_str_error e)"
proof -
  have "block_error_message e x y z ex = Inl (int_str_error e)"
    using assms(3) by (simp add: block_error_message_raises)
  with assms(1,2) show ?thesis by (simp add: get_block_fst)
qed

lemma num_digits_minus: "num_digits (- i) = num_digits i"
  by (simp add: num_digits_def)

lemma power_ten_unprintable:
  assumes "0 < int_max_str_digits e" and "int_max_str_digits e \<le> n"
  shows "\<not> printable e (10 ^ n)" and "\<not> printable e (- (10 ^ n))"
proof -
  have "(10::int) ^ n \<le> \<bar>10 ^ n\<bar>" by simp
  then have "n < num_digits (10 ^ n)" by (rule num_digits_lower)
  then show "\<not> printable e (10 ^ n)" using assms by (simp add: printable_def)
  then show "\<not> printable e (- (10 ^ n))" by (simp add: printable_def num_digits_minus)
qed

lemma region_of_power_ten_unprintable:
  assumes "0 < int_max_str_digits e" and "int_max_str_digits e + 3 \<le> n"
  shows "\<not> printable e (chunk_coord (10 ^ n) div 32)"
proof -
  let ?k = "int_max_str_digits e"
  have split: "chunk_coord (10 ^ n) div 32 = (10::int) ^ n div 512"
    by (simp add: chunk_coord_div zdiv_zmult2_eq [symmetric])
  have "(10::int) ^ ?k * 512 \<le> 10 ^ ?k * 10 ^ 3" by simp
  also have "\<dots> = 10 ^ (?k + 3)" by (simp only: power_add)
  also have "\<dots> \<le> 10 ^ n" using assms(2) by (intro power_increasing) simp_all
  finally have "(10::int) ^ ?k * 512 div 512 \<le> 10 ^ n div 512"
    by (intro zdiv_mono1) simp_all
  then have "(10::int) ^ ?k \<le> 10 ^ n div 512" by simp
  moreover have "(0::int) \<le> 10 ^ n div 512" by (simp add: pos_imp_zdiv_nonneg_iff)
  ultimately have "(10::int) ^ ?k \<le> \<bar>chunk_coord (10 ^ n) div 32\<bar>"
    unfolding split by simp
  then have "?k < num_digits (chunk_coord (10 ^ n) div 32)" by (rule num_digits_lower)
  then show ?thesis using assms(1) by (simp add: printable_def)
qed

lemma get_block_raises_power_ten:
  assumes "4303 \<le> n"
  shows "fst (get_block stub_env fresh_reader (10 ^ n) 0 0) = Inl (int_str_error stub_env)"
proof (rule get_block_raises_unprintable_region)
  show "chunk_cache fresh_reader (chunk_coord (10 ^ n), chunk_coord 0) = None"
    by (simp add: fresh_reader_def)
  show "region_cache fresh_reader (chunk_coord (10 ^ n) div 32, chunk_coord 0 div 32) = None"
    by (simp add: fresh_reader_def)
  show "\<not> printable stub_env (chunk_coord (10 ^ n) div 32)"
    using assms by (intro region_of_power_ten_unprintable) (simp_all add: stub_limit)
  show "\<not> printable stub_env (10 ^ n)"
    using assms by (intro power_ten_unprintable) (simp_all add: stub_limit)
qed

lemma get_block_raises_below_power_ten:
  assumes "4300 \<le> n"
  shows "fst (get_block stub_env fresh_reader 5 (- (10 ^ n)) 5) = Inl (int_str_error stub_env)"
proof (rule get_block_raises_bad_voxel)
  show "fst (get_chunk stub_env fresh_reader (chunk_coord 5) (chunk_coord 5)) = Inr (Some 7)"
    by (simp add: stub_eval)
  have "- ((10::int) ^ n) < 0" by simp
  then show "chunk_get_block stub_env 7 (block_offset 5) (- (10 ^ n)) (block_offset 5)
      = Inl (DecodeError ''block'')"
    by (simp add: stub_env_def)
  show "\<not> printable stub_env (- (10 ^ n))"
    using assms by (intro power_ten_unprintable) (simp_all add: stub_limit)
qed

text \<open>
  C1: \<^verbatim>\<open>get_block\<close> is meant never to raise, and it does not as long as its three
  coordinates can be printed. Under the default limit of 4300 digits it raises
  \<^verbatim>\<open>ValueError\<close> on a freshly constructed reader at \<open>x = 10 ^ 5000\<close>: the region file
  name cannot be formatted, and the handler that should turn the failure into
  \<^verbatim>\<open>"minecraft:air"\<close> raises again when it formats \<open>x\<close> for its message. It also
  raises at \<open>y = - (10 ^ 5000)\<close> in a decoded chunk whose voxel lookup fails, for the
  same reason.
\<close>

theorem get_block_raises_on_long_coordinate:
  "init_reader stub_env ''w'' = Inr fresh_reader
   \<and> fst (get_block stub_env fresh_reader (10 ^ 5000) 0 0) = Inl (int_str_error stub_env)
   \<and> fst (get_block stub_env fresh_reader 5 (- (10 ^ 5000)) 5) = Inl (int_str_error stub_env)"
proof (intro conjI)
  show "init_reader stub_env ''w'' = Inr fresh_reader" by (rule init_fresh)
  show "fst (get_block stub_env fresh_reader (10 ^ 5000) 0 0) = Inl (int_str_error stub_env)"
    by (rule get_block_raises_power_ten) simp
  show "fst (get_block stub_env fresh_reader 5 (- (10 ^ 5000)) 5) = Inl (int_str_error stub_env)"
    by (rule get_block_raises_below_power_ten) simp
qed

section \<open>The chunk cache\<close>

text \<open>
  C3: two coordinates in the same chunk, on a reader that has not cached it. If the
  region resolves and the library decodes the chunk's slot, then the first
  \<^verbatim>\<open>get_block\<close> leaves the chunk cached, having asked the library for one chunk
  decode; the second \<^verbatim>\<open>get_block\<close> makes one call into the library, the decode of its
  voxel in the cached chunk, changes neither cache, and answers from the cached chunk.
  Over both calls the library decoded a chunk exactly once.
\<close>

theorem same_chunk_one_decode:
  assumes "chunk_coord x1 = chunk_coord x2" and "chunk_coord z1 = chunk_coord z2"
    and "chunk_cache s (chunk_coord x1, chunk_coord z1) = None"
    and "fst (get_region e s (chunk_coord x1 div 32) (chunk_coord z1 div 32)) = Inr (Some r)"
    and "region_get_chunk e r (chunk_coord x1 mod 32) (chunk_coord z1 mod 32) = Inr c"
    and "get_block e s x1 y1 z1 = (b1, s1)"
    and "get_block e' s1 x2 y2 z2 = (b2, s2)"
  shows "chunk_cache s1 (chunk_coord x1, chunk_coord z1) = Some c
    \<and> chunk_decodes (new_calls s s1) = 1
    \<and> new_calls s1 s2 =
        [BlockDecode (chunk_coord x2, chunk_coord z2) (block_offset x2, y2, block_offset z2)]
    \<and> chunk_decodes (calls s2) = chunk_decodes (calls s) + 1
    \<and> chunk_cache s2 = chunk_cache s1
    \<and> region_cache s2 = region_cache s1
    \<and> b2 = (case chunk_get_block e' c (block_offset x2) y2 (block_offset z2) of
               Inr block \<Rightarrow> Inr block
             | Inl ex \<Rightarrow> (case block_error_message e' x2 y2 z2 ex of
                           Inl ex' \<Rightarrow> Inl ex' | Inr message \<Rightarrow> Inr ''minecraft:air''))"
proof -
  let ?cx = "chunk_coord x1" and ?cz = "chunk_coord z1"
  obtain t where g: "get_region e s (?cx div 32) (?cz div 32) = (Inr (Some r), t)"
    using assms(4) by (cases "get_region e s (?cx div 32) (?cz div 32)") simp
  have t_chunks: "chunk_cache t = chunk_cache s"
    using get_region_chunk_cache [of e s "?cx div 32" "?cz div 32"] g by simp
  have t_calls: "chunk_decodes (drop (length (calls s)) (calls t)) = 0"
    using g by (auto simp add: get_region_def Let_def chunk_decodes_def
        split: option.splits sum.splits)
  have t_len: "length (calls s) \<le> length (calls t)"
    using g by (auto simp add: get_region_def Let_def split: option.splits sum.splits)
  let ?u = "t\<lparr>calls := calls t @ [ChunkDecode (?cx, ?cz) (?cx mod 32, ?cz mod 32)],
               chunk_cache := (chunk_cache t)((?cx, ?cz) \<mapsto> c)\<rparr>"
  have gc: "get_chunk e s ?cx ?cz = (Inr (Some c), ?u)"
    using assms(3,5) g by (simp add: get_chunk_def Let_def)
  have s1: "s1 = ?u\<lparr>calls := calls ?u @
      [BlockDecode (?cx, ?cz) (block_offset x1, y1, block_offset z1)]\<rparr>"
    using get_block_snd [of e s x1 y1 z1] assms(6) gc by simp
  have cached: "chunk_cache s1 (?cx, ?cz) = Some c" using s1 by simp
  have hit: "get_chunk e' s1 (chunk_coord x2) (chunk_coord z2) = (Inr (Some c), s1)"
    using assms(1,2) cached by (simp add: get_chunk_hit)
  have s2: "s2 = s1\<lparr>calls := calls s1 @
      [BlockDecode (chunk_coord x2, chunk_coord z2) (block_offset x2, y2, block_offset z2)]\<rparr>"
    using get_block_snd [of e' s1 x2 y2 z2] assms(7) hit by simp
  have b2: "b2 = (case chunk_get_block e' c (block_offset x2) y2 (block_offset z2) of
               Inr block \<Rightarrow> Inr block
             | Inl ex \<Rightarrow> (case block_error_message e' x2 y2 z2 ex of
                           Inl ex' \<Rightarrow> Inl ex' | Inr message \<Rightarrow> Inr ''minecraft:air''))"
    using get_block_fst [of e' s1 x2 y2 z2] assms(7) hit by simp
  have first: "chunk_decodes (new_calls s s1) = 1"
    using s1 t_calls t_len by (simp add: new_calls_def chunk_decodes_def)
  have pre: "calls s1 = calls s @ new_calls s s1"
  proof -
    have "grows s s1" using get_block_grows [of s e x1 y1 z1] assms(6) by simp
    then show ?thesis by (auto simp add: grows_def new_calls_def)
  qed
  have total: "chunk_decodes (calls s2) = chunk_decodes (calls s) + 1"
  proof -
    have "calls s2 = calls s @ new_calls s s1 @
      [BlockDecode (chunk_coord x2, chunk_coord z2) (block_offset x2, y2, block_offset z2)]"
      using s2 pre by simp
    then show ?thesis using first by (simp add: chunk_decodes_def)
  qed
  have second: "new_calls s1 s2 =
      [BlockDecode (chunk_coord x2, chunk_coord z2) (block_offset x2, y2, block_offset z2)]"
    using s2 by (simp add: new_calls_def)
  have caches: "chunk_cache s2 = chunk_cache s1 \<and> region_cache s2 = region_cache s1"
    using s2 by simp
  from cached first second total caches b2 show ?thesis by blast
qed

theorem same_chunk_one_decode_witness:
  "chunk_cache (snd (get_block stub_env fresh_reader 5 64 5)) (0, 0) = Some 7
   \<and> chunk_decodes (calls (snd (get_block stub_env (snd (get_block stub_env fresh_reader 5 64 5))
                               4 63 4))) = 1
   \<and> fst (get_block stub_env (snd (get_block stub_env fresh_reader 5 64 5)) 4 63 4)
       = Inr ''minecraft:air''"
proof -
  let ?s1 = "snd (get_block stub_env fresh_reader 5 64 5)"
  have a1: "chunk_coord 5 = chunk_coord 4" by (simp add: chunk_coord_div)
  have a3: "chunk_cache fresh_reader (chunk_coord 5, chunk_coord 5) = None"
    by (simp add: fresh_reader_def)
  have a4: "fst (get_region stub_env fresh_reader (chunk_coord 5 div 32) (chunk_coord 5 div 32))
      = Inr (Some 1)"
    by (simp add: stub_eval)
  have a5: "region_get_chunk stub_env 1 (chunk_coord 5 mod 32) (chunk_coord 5 mod 32) = Inr 7"
    by (simp add: stub_eval)
  have a6: "get_block stub_env fresh_reader 5 64 5
      = (fst (get_block stub_env fresh_reader 5 64 5), ?s1)"
    by simp
  have a7: "get_block stub_env ?s1 4 63 4 =
      (fst (get_block stub_env ?s1 4 63 4), snd (get_block stub_env ?s1 4 63 4))"
    by simp
  have v: "chunk_get_block stub_env 7 (block_offset 4) 63 (block_offset 4) = Inr ''minecraft:air''"
    by (simp add: stub_eval)
  have c0: "chunk_decodes (calls fresh_reader) = 0"
    by (simp add: fresh_reader_def chunk_decodes_def)
  have k: "chunk_coord 5 = 0" by (simp add: chunk_coord_div)
  note t = same_chunk_one_decode [OF a1 a1 a3 a4 a5 a6 a7]
  from t have "chunk_cache ?s1 (chunk_coord 5, chunk_coord 5) = Some 7" by blast
  then have cached: "chunk_cache ?s1 (0, 0) = Some 7" by (simp only: k)
  from t have "chunk_decodes (calls (snd (get_block stub_env ?s1 4 63 4)))
      = chunk_decodes (calls fresh_reader) + 1" by blast
  then have one: "chunk_decodes (calls (snd (get_block stub_env ?s1 4 63 4))) = 1"
    by (simp only: c0)
  from t have "fst (get_block stub_env ?s1 4 63 4) =
      (case chunk_get_block stub_env 7 (block_offset 4) 63 (block_offset 4) of
         Inr block \<Rightarrow> Inr block
       | Inl ex \<Rightarrow> (case block_error_message stub_env 4 63 4 ex of
                     Inl ex' \<Rightarrow> Inl ex' | Inr message \<Rightarrow> Inr ''minecraft:air''))" by blast
  then have "fst (get_block stub_env ?s1 4 63 4) = Inr ''minecraft:air''"
    by (simp only: v sum.case)
  with cached one show ?thesis by blast
qed

section \<open>Area scan and batch lookup\<close>

lemma in_box_origin: "in_box 0 0 0 0 0 0 c \<longleftrightarrow> c = (0, 0, 0)"
  by (cases c) (auto simp add: in_box_def)

lemma printable_zero: "printable e 0"
proof -
  have "num_digits 0 = 1" unfolding num_digits_def by (subst str_nat.simps) simp
  then show ?thesis by (auto simp add: printable_def)
qed

lemma get_block_origin_returns: "\<exists>b. fst (get_block e s 0 0 0) = Inr b"
  by (rule get_block_returns) (rule printable_zero)+

lemma scan_area_stable:
  "fst (get_block e (snd (scan_area e s x1 y1 z1 x2 y2 z2)) x y z) = fst (get_block e s x y z)"
  by (rule agrees_get_block [OF scan_area_agrees [OF agrees_refl]])

lemma in_box_printable:
  assumes "printable e x1" "printable e y1" "printable e z1"
    and "printable e x2" "printable e y2" "printable e z2"
    and "in_box x1 y1 z1 x2 y2 z2 (x, y, z)"
  shows "printable e x \<and> printable e y \<and> printable e z"
  using assms printable_between [of e x1 x2 x] printable_between [of e y1 y2 y]
    printable_between [of e z1 z2 z]
  by (simp add: in_box_def)

text \<open>
  C4: against one world \<open>e\<close>, when \<^verbatim>\<open>scan_area\<close> returns, its dictionary has, at every
  coordinate, the \<^verbatim>\<open>get_block\<close> name of that voxel if the voxel is inside the
  normalised inclusive box and the name is not one of the six air names, and no entry
  otherwise; so no key lies outside the box. The name of a voxel is the same whether
  \<^verbatim>\<open>get_block\<close> is asked before the scan or after it. The scan returns exactly when
  \<^verbatim>\<open>get_block\<close> returns on every voxel of the box, which it does when the six corner
  coordinates can be printed. A scan of the single voxel \<open>(0, 0, 0)\<close> always returns,
  with at most one entry, and none if that voxel is air under any spelling.
\<close>

theorem scan_area_contents:
  "(scan_area e s x1 y1 z1 x2 y2 z2 = (Inr blocks, s') \<longrightarrow>
      (in_box x1 y1 z1 x2 y2 z2 (x, y, z) \<longrightarrow> (\<exists>b. fst (get_block e s x y z) = Inr b))
      \<and> blocks (x, y, z) =
          (case fst (get_block e s x y z) of
             Inr b \<Rightarrow>
               if in_box x1 y1 z1 x2 y2 z2 (x, y, z)
                  \<and> b \<notin> {''minecraft:air'', ''minecraft:cave_air'', ''minecraft:void_air'',
                          ''air'', ''cave_air'', ''void_air''}
               then Some b else None
           | Inl ex \<Rightarrow> None)
      \<and> dom blocks \<subseteq> {c. in_box x1 y1 z1 x2 y2 z2 c})
   \<and> fst (get_block e (snd (scan_area e s x1 y1 z1 x2 y2 z2)) x y z) = fst (get_block e s x y z)
   \<and> ((\<exists>found t. scan_area e s x1 y1 z1 x2 y2 z2 = (Inr found, t))
        \<longleftrightarrow> (\<forall>a b c. in_box x1 y1 z1 x2 y2 z2 (a, b, c)
                      \<longrightarrow> (\<exists>name. fst (get_block e s a b c) = Inr name)))
   \<and> (printable e x1 \<and> printable e y1 \<and> printable e z1
        \<and> printable e x2 \<and> printable e y2 \<and> printable e z2
        \<longrightarrow> (\<exists>found t. scan_area e s x1 y1 z1 x2 y2 z2 = (Inr found, t)))
   \<and> (\<exists>found t. scan_area e s 0 0 0 0 0 0 = (Inr found, t)
        \<and> card (dom found) \<le> 1
        \<and> (fst (get_block e s 0 0 0) \<in>
              Inr ` {''minecraft:air'', ''minecraft:cave_air'', ''minecraft:void_air'',
                     ''air'', ''cave_air'', ''void_air''}
            \<longrightarrow> found = Map.empty))"
proof -
  have contents: "(in_box a1 b1 c1 a2 b2 c2 (a, b, c) \<longrightarrow> (\<exists>n. fst (get_block e s a b c) = Inr n))
    \<and> m (a, b, c) =
        (case fst (get_block e s a b c) of
           Inr n \<Rightarrow> if in_box a1 b1 c1 a2 b2 c2 (a, b, c) \<and> n \<notin> air_blocks then Some n else None
         | Inl ex \<Rightarrow> None)"
    if "scan_area e s a1 b1 c1 a2 b2 c2 = (Inr m, t)" for a1 b1 c1 a2 b2 c2 a b c m t
    using agrees_refl that by (rule scan_area_from_agreeing)
  have keys: "dom m \<subseteq> {k. in_box a1 b1 c1 a2 b2 c2 k}"
    if r: "scan_area e s a1 b1 c1 a2 b2 c2 = (Inr m, t)" for a1 b1 c1 a2 b2 c2 m t
  proof
    fix k assume k: "k \<in> dom m"
    obtain a b c where "k = (a, b, c)" by (cases k)
    with k contents [OF r, of a b c] show "k \<in> {k. in_box a1 b1 c1 a2 b2 c2 k}"
      by (auto split: if_splits sum.splits)
  qed
  have returns: "\<exists>found t. scan_area e s x1 y1 z1 x2 y2 z2 = (Inr found, t)"
    if "\<forall>a b c. in_box x1 y1 z1 x2 y2 z2 (a, b, c)
          \<longrightarrow> (\<exists>name. fst (get_block e s a b c) = Inr name)"
    using agrees_refl that by (rule scan_area_returns)
  have iff: "(\<exists>found t. scan_area e s x1 y1 z1 x2 y2 z2 = (Inr found, t))
        \<longleftrightarrow> (\<forall>a b c. in_box x1 y1 z1 x2 y2 z2 (a, b, c)
                      \<longrightarrow> (\<exists>name. fst (get_block e s a b c) = Inr name))"
    using returns contents by blast
  have corners: "\<exists>found t. scan_area e s x1 y1 z1 x2 y2 z2 = (Inr found, t)"
    if p: "printable e x1 \<and> printable e y1 \<and> printable e z1
        \<and> printable e x2 \<and> printable e y2 \<and> printable e z2"
  proof (rule returns, intro allI impI)
    fix a b c assume "in_box x1 y1 z1 x2 y2 z2 (a, b, c)"
    with p have "printable e a \<and> printable e b \<and> printable e c"
      using in_box_printable [of e x1 y1 z1 x2 y2 z2 a b c] by blast
    then show "\<exists>name. fst (get_block e s a b c) = Inr name"
      using get_block_returns by blast
  qed
  have origin: "\<exists>found t. scan_area e s 0 0 0 0 0 0 = (Inr found, t)
        \<and> card (dom found) \<le> 1
        \<and> (fst (get_block e s 0 0 0) \<in> Inr ` air_blocks \<longrightarrow> found = Map.empty)"
  proof -
    have "\<forall>a b c. in_box 0 0 0 0 0 0 (a, b, c)
        \<longrightarrow> (\<exists>name. fst (get_block e s a b c) = Inr name)"
      using get_block_origin_returns [of e s] by (simp add: in_box_origin)
    with agrees_refl have "\<exists>found t. scan_area e s 0 0 0 0 0 0 = (Inr found, t)"
      by (rule scan_area_returns)
    then obtain found t where r: "scan_area e s 0 0 0 0 0 0 = (Inr found, t)" by blast
    have "dom found \<subseteq> {(0, 0, 0)}"
      using keys [OF r] by (auto simp add: in_box_origin)
    then have "card (dom found) \<le> card {(0::int, 0::int, 0::int)}"
      by (intro card_mono) simp_all
    then have single: "card (dom found) \<le> 1" by simp
    have empty: "found = Map.empty" if air: "fst (get_block e s 0 0 0) \<in> Inr ` air_blocks"
    proof
      fix k :: "int \<times> int \<times> int"
      obtain a b c where k: "k = (a, b, c)" by (cases k)
      show "found k = None"
        using contents [OF r, of a b c] air unfolding k
        by (auto simp add: in_box_origin split: sum.splits)
    qed
    from r single empty show ?thesis by blast
  qed
  have first: "scan_area e s x1 y1 z1 x2 y2 z2 = (Inr blocks, s') \<longrightarrow>
      (in_box x1 y1 z1 x2 y2 z2 (x, y, z) \<longrightarrow> (\<exists>b. fst (get_block e s x y z) = Inr b))
      \<and> blocks (x, y, z) =
          (case fst (get_block e s x y z) of
             Inr b \<Rightarrow> if in_box x1 y1 z1 x2 y2 z2 (x, y, z) \<and> b \<notin> air_blocks
                      then Some b else None
           | Inl ex \<Rightarrow> None)
      \<and> dom blocks \<subseteq> {c. in_box x1 y1 z1 x2 y2 z2 c}"
  proof
    assume r: "scan_area e s x1 y1 z1 x2 y2 z2 = (Inr blocks, s')"
    from contents [OF r, of x y z] keys [OF r]
    show "(in_box x1 y1 z1 x2 y2 z2 (x, y, z) \<longrightarrow> (\<exists>b. fst (get_block e s x y z) = Inr b))
      \<and> blocks (x, y, z) =
          (case fst (get_block e s x y z) of
             Inr b \<Rightarrow> if in_box x1 y1 z1 x2 y2 z2 (x, y, z) \<and> b \<notin> air_blocks
                      then Some b else None
           | Inl ex \<Rightarrow> None)
      \<and> dom blocks \<subseteq> {c. in_box x1 y1 z1 x2 y2 z2 c}"
      by blast
  qed
  show ?thesis
    using first scan_area_stable [of e s x1 y1 z1 x2 y2 z2 x y z] iff corners origin
    unfolding air_blocks_def by blast
qed

theorem scan_area_contents_witness:
  "(\<exists>found t. scan_area stub_env fresh_reader 4 63 4 5 64 5 = (Inr found, t)
       \<and> found (5, 64, 5) = Some ''minecraft:stone''
       \<and> found (4, 64, 5) = None
       \<and> found (5, 64, 6) = None)
   \<and> (\<exists>found t. scan_area stub_env fresh_reader 0 0 0 0 0 0 = (Inr found, t)
       \<and> found = Map.empty)"
proof -
  have stone: "fst (get_block stub_env fresh_reader 5 64 5) = Inr ''minecraft:stone''"
    by (simp add: stub_eval)
  have air: "fst (get_block stub_env fresh_reader 4 64 5) = Inr ''minecraft:air''"
    by (simp add: stub_eval)
  have outside: "\<not> in_box 4 63 4 5 64 5 (5, 64, 6)"
    and inside: "in_box 4 63 4 5 64 5 (5, 64, 5)"
    by (simp_all add: in_box_def)
  have origin: "fst (get_block stub_env fresh_reader 0 0 0)
      \<in> Inr ` {''minecraft:air'', ''minecraft:cave_air'', ''minecraft:void_air'',
                ''air'', ''cave_air'', ''void_air''}"
    by (simp add: stub_eval)
  have p: "printable stub_env 4 \<and> printable stub_env 63 \<and> printable stub_env 4
        \<and> printable stub_env 5 \<and> printable stub_env 64 \<and> printable stub_env 5"
    by (simp add: printable_three_digits)
  note t = scan_area_contents
  have "\<exists>found u. scan_area stub_env fresh_reader 4 63 4 5 64 5 = (Inr found, u)"
    using p t [of stub_env fresh_reader 4 63 4 5 64 5,
        THEN conjunct2, THEN conjunct2, THEN conjunct2, THEN conjunct1]
    by (rule rev_mp)
  then obtain found u where r: "scan_area stub_env fresh_reader 4 63 4 5 64 5 = (Inr found, u)"
    by blast
  have 1: "found (5, 64, 5) = Some ''minecraft:stone''"
    using t [of stub_env fresh_reader 4 63 4 5 64 5 found u 5 64 5, THEN conjunct1] r inside
    by (simp add: stone)
  have 2: "found (4, 64, 5) = None"
    using t [of stub_env fresh_reader 4 63 4 5 64 5 found u 4 64 5, THEN conjunct1] r
    by (simp add: air)
  have 3: "found (5, 64, 6) = None"
    using t [of stub_env fresh_reader 4 63 4 5 64 5 found u 5 64 6, THEN conjunct1] r outside
    by (simp split: sum.splits)
  have 4: "\<exists>found t. scan_area stub_env fresh_reader 0 0 0 0 0 0 = (Inr found, t)
       \<and> found = Map.empty"
    using t [of stub_env fresh_reader 0 0 0 0 0 0,
        THEN conjunct2, THEN conjunct2, THEN conjunct2, THEN conjunct2] origin
    by blast
  from r 1 2 3 4 show ?thesis by blast
qed

text \<open>
  C5: the order of the two corners does not matter. The two calls are the same
  computation (same outcome, same final state), and when the second call is made on
  the reader as the first call left it, against the same world, its outcome is that of
  the first again: the same dictionary, or the same exception.
\<close>

theorem scan_area_corner_order:
  "scan_area e s x1 y1 z1 x2 y2 z2 = scan_area e s x2 y2 z2 x1 y1 z1
   \<and> fst (scan_area e (snd (scan_area e s x1 y1 z1 x2 y2 z2)) x2 y2 z2 x1 y1 z1)
       = fst (scan_area e s x1 y1 z1 x2 y2 z2)"
proof
  show swap: "scan_area e s x1 y1 z1 x2 y2 z2 = scan_area e s x2 y2 z2 x1 y1 z1"
    by (simp add: scan_area_def min.commute max.commute)
  let ?s' = "snd (scan_area e s x1 y1 z1 x2 y2 z2)"
  have a: "agrees e s ?s'" by (rule scan_area_agrees [OF agrees_refl])
  have "fst (scan_area e ?s' x2 y2 z2 x1 y1 z1) = fst (scan_area e s x2 y2 z2 x1 y1 z1)"
    by (rule scan_area_same [OF a])
  then show "fst (scan_area e ?s' x2 y2 z2 x1 y1 z1) = fst (scan_area e s x1 y1 z1 x2 y2 z2)"
    by (simp only: swap)
qed

theorem scan_area_corner_order_witness:
  "fst (scan_area stub_env fresh_reader 5 64 5 4 63 4)
     = Inr [(5, 64, 5) \<mapsto> ''minecraft:stone'']
   \<and> fst (scan_area stub_env (snd (scan_area stub_env fresh_reader 5 64 5 4 63 4)) 4 63 4 5 64 5)
       = Inr [(5, 64, 5) \<mapsto> ''minecraft:stone'']"
proof -
  have v: "fst (scan_area stub_env fresh_reader 4 63 4 5 64 5)
      = Inr [(5, 64, 5) \<mapsto> ''minecraft:stone'']"
    by (simp add: scan_area_def scan_voxel_def range_py_def air_blocks_def upto.simps stub_eval)
  note t = scan_area_corner_order [of stub_env fresh_reader 5 64 5 4 63 4]
  from t have eq1: "scan_area stub_env fresh_reader 5 64 5 4 63 4
      = scan_area stub_env fresh_reader 4 63 4 5 64 5" by blast
  from t have eq2:
    "fst (scan_area stub_env (snd (scan_area stub_env fresh_reader 5 64 5 4 63 4)) 4 63 4 5 64 5)
      = fst (scan_area stub_env fresh_reader 5 64 5 4 63 4)" by blast
  have 1: "fst (scan_area stub_env fresh_reader 5 64 5 4 63 4)
      = Inr [(5, 64, 5) \<mapsto> ''minecraft:stone'']"
    by (simp only: eq1 v)
  have 2:
    "fst (scan_area stub_env (snd (scan_area stub_env fresh_reader 5 64 5 4 63 4)) 4 63 4 5 64 5)
      = Inr [(5, 64, 5) \<mapsto> ''minecraft:stone'']"
    by (simp only: eq2 1)
  from 1 2 show ?thesis by blast
qed

text \<open>
  C6: against one world \<open>e\<close>, when \<^verbatim>\<open>get_multiple_blocks\<close> returns, its dictionary has
  exactly the coordinates of the list as keys, each with the \<^verbatim>\<open>get_block\<close> name of
  that coordinate, air names included. It returns exactly when \<^verbatim>\<open>get_block\<close> returns
  on every coordinate of the list. A list that names \<open>(0, 0, 0)\<close> twice always returns,
  with the one entry for \<open>(0, 0, 0)\<close>, whose name is what a single
  \<^verbatim>\<open>get_block(0, 0, 0)\<close> returns.
\<close>

theorem get_multiple_blocks_contents:
  "(get_multiple_blocks e s coordinates = (Inr results, s') \<longrightarrow>
      ((x, y, z) \<in> set coordinates \<longrightarrow> (\<exists>b. fst (get_block e s x y z) = Inr b))
      \<and> results (x, y, z) =
          (case fst (get_block e s x y z) of
             Inr b \<Rightarrow> if (x, y, z) \<in> set coordinates then Some b else None
           | Inl ex \<Rightarrow> None)
      \<and> dom results = set coordinates)
   \<and> ((\<exists>found t. get_multiple_blocks e s coordinates = (Inr found, t))
        \<longleftrightarrow> (\<forall>a b c. (a, b, c) \<in> set coordinates
                      \<longrightarrow> (\<exists>name. fst (get_block e s a b c) = Inr name)))
   \<and> (\<exists>name t. fst (get_block e s 0 0 0) = Inr name
        \<and> get_multiple_blocks e s [(0, 0, 0), (0, 0, 0)] = (Inr [(0, 0, 0) \<mapsto> name], t)
        \<and> card (dom [(0::int, 0::int, 0::int) \<mapsto> name]) = 1)"
proof -
  have contents: "((a, b, c) \<in> set cs \<longrightarrow> (\<exists>n. fst (get_block e s a b c) = Inr n))
    \<and> m (a, b, c) =
        (case fst (get_block e s a b c) of
           Inr n \<Rightarrow> if (a, b, c) \<in> set cs then Some n else None
         | Inl ex \<Rightarrow> None)"
    if "get_multiple_blocks e s cs = (Inr m, t)" for cs a b c m t
    using agrees_refl that by (rule get_multiple_blocks_from_agreeing)
  have keys: "dom m = set cs" if r: "get_multiple_blocks e s cs = (Inr m, t)" for cs m t
  proof (rule set_eqI)
    fix k :: "int \<times> int \<times> int"
    obtain a b c where k: "k = (a, b, c)" by (cases k)
    show "k \<in> dom m \<longleftrightarrow> k \<in> set cs"
      using contents [OF r, of a b c] unfolding k by (auto simp add: domIff split: sum.splits)
  qed
  have returns: "\<exists>found t. get_multiple_blocks e s cs = (Inr found, t)"
    if "\<forall>a b c. (a, b, c) \<in> set cs \<longrightarrow> (\<exists>name. fst (get_block e s a b c) = Inr name)" for cs
    using agrees_refl that by (rule get_multiple_blocks_returns)
  have iff: "(\<exists>found t. get_multiple_blocks e s coordinates = (Inr found, t))
        \<longleftrightarrow> (\<forall>a b c. (a, b, c) \<in> set coordinates
                      \<longrightarrow> (\<exists>name. fst (get_block e s a b c) = Inr name))"
    using returns [of coordinates] contents by blast
  have twice: "\<exists>name t. fst (get_block e s 0 0 0) = Inr name
        \<and> get_multiple_blocks e s [(0, 0, 0), (0, 0, 0)] = (Inr [(0, 0, 0) \<mapsto> name], t)
        \<and> card (dom [(0::int, 0::int, 0::int) \<mapsto> name]) = 1"
  proof -
    obtain name where n: "fst (get_block e s 0 0 0) = Inr name"
      using get_block_origin_returns by blast
    obtain found t where r: "get_multiple_blocks e s [(0, 0, 0), (0, 0, 0)] = (Inr found, t)"
      using returns [of "[(0, 0, 0), (0, 0, 0)]"] n by auto
    have "found = [(0, 0, 0) \<mapsto> name]"
    proof
      fix k :: "int \<times> int \<times> int"
      obtain a b c where k: "k = (a, b, c)" by (cases k)
      show "found k = [(0, 0, 0) \<mapsto> name] k"
        using contents [OF r, of a b c] n unfolding k by (auto split: sum.splits)
    qed
    with r n show ?thesis by simp
  qed
  have first: "get_multiple_blocks e s coordinates = (Inr results, s') \<longrightarrow>
      ((x, y, z) \<in> set coordinates \<longrightarrow> (\<exists>b. fst (get_block e s x y z) = Inr b))
      \<and> results (x, y, z) =
          (case fst (get_block e s x y z) of
             Inr b \<Rightarrow> if (x, y, z) \<in> set coordinates then Some b else None
           | Inl ex \<Rightarrow> None)
      \<and> dom results = set coordinates"
  proof
    assume r: "get_multiple_blocks e s coordinates = (Inr results, s')"
    from contents [OF r, of x y z] keys [OF r]
    show "((x, y, z) \<in> set coordinates \<longrightarrow> (\<exists>b. fst (get_block e s x y z) = Inr b))
      \<and> results (x, y, z) =
          (case fst (get_block e s x y z) of
             Inr b \<Rightarrow> if (x, y, z) \<in> set coordinates then Some b else None
           | Inl ex \<Rightarrow> None)
      \<and> dom results = set coordinates"
      by blast
  qed
  from first iff twice show ?thesis by blast
qed

theorem get_multiple_blocks_contents_witness:
  "(\<exists>t. get_multiple_blocks stub_env fresh_reader [(0, 0, 0), (0, 0, 0)]
          = (Inr [(0, 0, 0) \<mapsto> ''minecraft:air''], t))
   \<and> (\<exists>found t. get_multiple_blocks stub_env fresh_reader [(5, 64, 5), (0, 0, 0)]
          = (Inr found, t) \<and> found (5, 64, 5) = Some ''minecraft:stone'')"
proof -
  have origin: "fst (get_block stub_env fresh_reader 0 0 0) = Inr ''minecraft:air''"
    by (simp add: stub_eval)
  have stone: "fst (get_block stub_env fresh_reader 5 64 5) = Inr ''minecraft:stone''"
    by (simp add: stub_eval)
  note t = get_multiple_blocks_contents
  have 1: "\<exists>t. get_multiple_blocks stub_env fresh_reader [(0, 0, 0), (0, 0, 0)]
          = (Inr [(0, 0, 0) \<mapsto> ''minecraft:air''], t)"
    using t [of stub_env fresh_reader "[]"] origin by auto
  have "\<forall>a b c. (a, b, c) \<in> set [(5, 64, 5), (0, 0, 0)]
          \<longrightarrow> (\<exists>name. fst (get_block stub_env fresh_reader a b c) = Inr name)"
    using origin stone by auto
  with t [of stub_env fresh_reader "[(5, 64, 5), (0, 0, 0)]"]
  obtain found u where r: "get_multiple_blocks stub_env fresh_reader [(5, 64, 5), (0, 0, 0)]
      = (Inr found, u)" by blast
  have "found (5, 64, 5) = Some ''minecraft:stone''"
    using t [of stub_env fresh_reader "[(5, 64, 5), (0, 0, 0)]" found u 5 64 5] r
    by (simp add: stone)
  with r 1 show ?thesis by blast
qed

section \<open>Cache invariants over a session\<close>

lemma init_reader_empty:
  assumes "init_reader e world_path = Inr s"
  shows "region_cache s = Map.empty \<and> chunk_cache s = Map.empty \<and> calls s = []
    \<and> world_directory s = path_join world_path ''region''"
  using assms by (auto simp add: init_reader_def Let_def split: if_splits)

lemma grows_new_calls:
  assumes "grows s s'"
  shows "(\<forall>k p. RegionLoad k p \<in> set (new_calls s s') \<longrightarrow> region_cache s k = None)
    \<and> (\<forall>k slot. ChunkDecode k slot \<in> set (new_calls s s') \<longrightarrow> chunk_cache s k = None)"
proof -
  from assms obtain new where n: "calls s' = calls s @ new"
    and r: "\<forall>k p. RegionLoad k p \<in> set new \<longrightarrow> region_cache s k = None"
    and c: "\<forall>k slot. ChunkDecode k slot \<in> set new \<longrightarrow> chunk_cache s k = None"
    unfolding grows_def by blast
  have "new_calls s s' = new" using n by (simp add: new_calls_def)
  with r c show ?thesis by simp
qed

text \<open>
  C8: take any state \<open>s\<close> of a reader and any calls made on it afterwards, returning or
  raising, against whatever the world outside answers at each call. A region that \<open>s\<close>
  has cached is still cached, with the same handle, after those calls; resolving it then
  returns that handle and leaves the reader untouched; and none of the calls asked the
  library to load that region. The same holds for a cached chunk and chunk decodes.
\<close>

theorem cache_entries_persist:
  "(region_cache s k = Some r \<longrightarrow>
      region_cache (run ops s) k = Some r
      \<and> get_region e (run ops s) (fst k) (snd k) = (Inr (Some r), run ops s)
      \<and> (\<forall>p. RegionLoad k p \<notin> set (new_calls s (run ops s))))
   \<and> (chunk_cache s k = Some c \<longrightarrow>
      chunk_cache (run ops s) k = Some c
      \<and> get_chunk e (run ops s) (fst k) (snd k) = (Inr (Some c), run ops s)
      \<and> (\<forall>slot. ChunkDecode k slot \<notin> set (new_calls s (run ops s))))"
proof -
  have g: "grows s (run ops s)" by (rule run_grows)
  then have rle: "region_cache s \<subseteq>\<^sub>m region_cache (run ops s)"
    and cle: "chunk_cache s \<subseteq>\<^sub>m chunk_cache (run ops s)"
    by (simp_all add: grows_def)
  note nc = grows_new_calls [OF g]
  have region: "region_cache (run ops s) k = Some r
      \<and> get_region e (run ops s) (fst k) (snd k) = (Inr (Some r), run ops s)
      \<and> (\<forall>p. RegionLoad k p \<notin> set (new_calls s (run ops s)))"
    if h: "region_cache s k = Some r"
  proof -
    have kept: "region_cache (run ops s) k = Some r" by (rule map_le_Some [OF rle h])
    then have "region_cache (run ops s) (fst k, snd k) = Some r" by simp
    then have hit: "get_region e (run ops s) (fst k) (snd k) = (Inr (Some r), run ops s)"
      by (rule get_region_hit)
    have "\<forall>p. RegionLoad k p \<notin> set (new_calls s (run ops s))"
      using nc h by (metis option.distinct(1))
    with kept hit show ?thesis by blast
  qed
  have chunk: "chunk_cache (run ops s) k = Some c
      \<and> get_chunk e (run ops s) (fst k) (snd k) = (Inr (Some c), run ops s)
      \<and> (\<forall>slot. ChunkDecode k slot \<notin> set (new_calls s (run ops s)))"
    if h: "chunk_cache s k = Some c"
  proof -
    have kept: "chunk_cache (run ops s) k = Some c" by (rule map_le_Some [OF cle h])
    then have "chunk_cache (run ops s) (fst k, snd k) = Some c" by simp
    then have hit: "get_chunk e (run ops s) (fst k) (snd k) = (Inr (Some c), run ops s)"
      by (rule get_chunk_hit)
    have "\<forall>slot. ChunkDecode k slot \<notin> set (new_calls s (run ops s))"
      using nc h by (metis option.distinct(1))
    with kept hit show ?thesis by blast
  qed
  from region chunk show ?thesis by blast
qed

theorem cache_entries_persist_witness:
  "region_cache (run [(bare_env, ScanArea 4 63 4 5 64 5), (bare_env, GetChunk 0 0)]
                     (snd (get_block stub_env fresh_reader 5 64 5))) (0, 0) = Some 1
   \<and> chunk_cache (run [(bare_env, ScanArea 4 63 4 5 64 5), (bare_env, GetChunk 0 0)]
                     (snd (get_block stub_env fresh_reader 5 64 5))) (0, 0) = Some 7"
proof -
  let ?s = "snd (get_block stub_env fresh_reader 5 64 5)"
  let ?ops = "[(bare_env, ScanArea 4 63 4 5 64 5), (bare_env, GetChunk 0 0)]"
  have r: "region_cache ?s (0, 0) = Some 1" by (simp add: stub_eval)
  have c: "chunk_cache ?s (0, 0) = Some 7" by (simp add: stub_eval)
  from r c cache_entries_persist [of ?s "(0, 0)" 1 ?ops bare_env 7]
  show ?thesis by blast
qed

text \<open>
  C9: start from a freshly constructed reader and make any calls on it, returning or
  raising, against whatever the world outside answers at each call. Then every chunk in
  the chunk cache lies in a region that is in the region cache. The converse fails:
  after \<^verbatim>\<open>_get_region(0, 0)\<close> on a fresh reader of the stub world, region \<open>(0, 0)\<close> is
  cached and no chunk is.
\<close>

theorem cached_chunks_have_cached_regions:
  "(init_reader e0 world_path = Inr s0 \<and> chunk_cache (run ops s0) (cx, cz) = Some c
      \<longrightarrow> region_cache (run ops s0) (cx div 32, cz div 32) \<noteq> None)
   \<and> (init_reader stub_env ''w'' = Inr fresh_reader
      \<and> region_cache (run [(stub_env, GetRegion 0 0)] fresh_reader) (0, 0) = Some 1
      \<and> chunk_cache (run [(stub_env, GetRegion 0 0)] fresh_reader) = Map.empty)"
proof (intro conjI impI)
  assume a: "init_reader e0 world_path = Inr s0 \<and> chunk_cache (run ops s0) (cx, cz) = Some c"
  then have "chunks_have_regions s0"
    using init_reader_empty [of e0 world_path s0] by (simp add: chunks_have_regions_def)
  then have "chunks_have_regions (run ops s0)" by (rule run_inv)
  with a show "region_cache (run ops s0) (cx div 32, cz div 32) \<noteq> None"
    by (simp add: chunks_have_regions_def)
next
  show "init_reader stub_env ''w'' = Inr fresh_reader" by (rule init_fresh)
next
  show "region_cache (run [(stub_env, GetRegion 0 0)] fresh_reader) (0, 0) = Some 1"
    by (simp add: run_def stub_eval)
next
  show "chunk_cache (run [(stub_env, GetRegion 0 0)] fresh_reader) = Map.empty"
    by (simp add: run_def stub_eval)
qed

theorem cached_chunks_have_cached_regions_witness:
  "chunk_cache (run [(stub_env, GetBlock 5 64 5), (bare_env, GetBlock (- 1) 0 0)] fresh_reader)
      (0, 0) = Some 7
   \<and> region_cache (run [(stub_env, GetBlock 5 64 5), (bare_env, GetBlock (- 1) 0 0)] fresh_reader)
       (0 div 32, 0 div 32) \<noteq> None"
proof -
  let ?ops = "[(stub_env, GetBlock 5 64 5), (bare_env, GetBlock (- 1) 0 0)]"
  have c: "chunk_cache (run ?ops fresh_reader) (0, 0) = Some 7"
    by (simp add: run_def stub_eval)
  from init_fresh c
    cached_chunks_have_cached_regions [of stub_env "''w''" fresh_reader ?ops 0 0 7]
  show ?thesis by blast
qed

end
